theory Spec2Isabelle
  imports Complex_Main "HOL-Library.Log_Nat"
begin

section \<open>Numbers, strings and errors\<close>

text \<open>
  The library is TypeScript. Its strings are modelled as \<open>string\<close>; every string the
  pipeline inspects or builds is ASCII (hex digits, \<open>#\<close>, the fixed name vocabulary).
  A thrown \<open>Error\<close> is the left summand of a sum type. The only \<open>throw\<close> of the
  library is in \<open>hexToRgb\<close>; its message quotes the offending string, which the error
  value carries.

  A JavaScript number is an IEEE 754 binary64 value. A finite one is modelled as the real
  number it denotes (the sign of zero is not kept: no result of the library depends on
  it), and every arithmetic operation of the source is the exact operation on the reals
  followed by \<open>fl\<close>, the rounding to the nearest double with ties to the even
  significand. A decimal literal of the source such as \<open>0.3\<close> denotes \<open>fl 0.3\<close>.
  The numbers of the pipeline stay far below the overflow threshold, no division has a
  zero divisor, and so every number computed from an accepted hex string is finite. The
  exported function \<open>rgbToHex\<close> takes arbitrary numbers from its caller, so its
  parameters range over \<open>number\<close>, which adds the two infinities and NaN.
\<close>

datatype error = InvalidColorFormat string

datatype number = Fin real | PosInfinity | NegInfinity | NaN

text \<open>Rounding to binary64. \<open>rne\<close> rounds a real to the nearest integer, a tie to
  the even one. \<open>expo x\<close> is the binary exponent of a positive \<open>x\<close>, the integer
  \<open>e\<close> with \<open>2 ^ e \<le> x < 2 ^ (e + 1)\<close>. \<open>fl x\<close> rounds \<open>x\<close> to a multiple
  of the unit in the last place of its binade, 52 binary places below the exponent, and
  of \<open>2 ^ - 1074\<close> in the subnormal range.\<close>

definition rne :: "real \<Rightarrow> int" where
  "rne y = (let f = \<lfloor>y\<rfloor>; d = y - of_int f
            in if d < 1 / 2 then f else if 1 / 2 < d then f + 1
               else if even f then f else f + 1)"

definition expo :: "real \<Rightarrow> int" where
  "expo x = (if 1 \<le> x then bitlen \<lfloor>x\<rfloor> - 1 else - bitlen (\<lceil>1 / x\<rceil> - 1))"

definition fl :: "real \<Rightarrow> real" where
  "fl x = (let q = max (expo \<bar>x\<bar>) (- 1022) - 52
           in of_int (rne (x / 2 powi q)) * 2 powi q)"

text \<open>The exponent of the unit in the last place at \<open>x\<close>.\<close>

definition ulp_exp :: "real \<Rightarrow> int" where
  "ulp_exp x = max (expo \<bar>x\<bar>) (- 1022) - 52"

text \<open>\<open>Math.round\<close>: nearest integer, a tie goes towards plus infinity; the result
  is exact. \<open>js_round\<close> is the same function on finite numbers.\<close>

definition js_round :: "real \<Rightarrow> real" where
  "js_round x = of_int \<lfloor>x + 1 / 2\<rfloor>"

fun Math_round :: "number \<Rightarrow> number" where
  "Math_round (Fin x) = Fin (js_round x)"
| "Math_round PosInfinity = PosInfinity"
| "Math_round NegInfinity = NegInfinity"
| "Math_round NaN = NaN"

fun Math_min :: "number \<Rightarrow> number \<Rightarrow> number" where
  "Math_min NaN y = NaN"
| "Math_min x NaN = NaN"
| "Math_min NegInfinity y = NegInfinity"
| "Math_min x NegInfinity = NegInfinity"
| "Math_min PosInfinity y = y"
| "Math_min x PosInfinity = x"
| "Math_min (Fin x) (Fin y) = Fin (min x y)"

fun Math_max :: "number \<Rightarrow> number \<Rightarrow> number" where
  "Math_max NaN y = NaN"
| "Math_max x NaN = NaN"
| "Math_max PosInfinity y = PosInfinity"
| "Math_max x PosInfinity = PosInfinity"
| "Math_max NegInfinity y = y"
| "Math_max x NegInfinity = x"
| "Math_max (Fin x) (Fin y) = Fin (max x y)"

text \<open>The operator \<open>%\<close> on numbers: the quotient is truncated towards zero, so the
  result has the sign of the dividend; the remainder of two doubles is a double, so the
  result is exact. The divisor is never zero where it is used.\<close>

definition js_rem :: "real \<Rightarrow> real \<Rightarrow> real" where
  "js_rem x y = x - y * of_int (if 0 \<le> x / y then \<lfloor>x / y\<rfloor> else \<lceil>x / y\<rceil>)"

text \<open>\<open>Math.pow\<close> with a positive base. ECMAScript leaves its accuracy to the
  implementation; it is modelled as the power on the reals, rounded once.\<close>

definition Math_pow :: "real \<Rightarrow> real \<Rightarrow> real" where
  "Math_pow x y = fl (x powr y)"

text \<open>\<open>toUpperCase\<close> and \<open>toLowerCase\<close>, on the ASCII letters.\<close>

definition toUpperCase_char :: "char \<Rightarrow> char" where
  "toUpperCase_char c =
     (if c \<in> set ''abcdefghijklmnopqrstuvwxyz'' then char_of (of_char c - (32::nat)) else c)"

definition toLowerCase_char :: "char \<Rightarrow> char" where
  "toLowerCase_char c =
     (if c \<in> set ''ABCDEFGHIJKLMNOPQRSTUVWXYZ'' then char_of (of_char c + (32::nat)) else c)"

definition toUpperCase :: "string \<Rightarrow> string" where
  "toUpperCase str = map toUpperCase_char str"

text \<open>\<open>n.toString(16)\<close>. For a finite number the digits of the integer part are
  produced; \<open>rgbToHex\<close> only passes values that went through \<open>Math.round\<close>.\<close>

definition digit16 :: "nat \<Rightarrow> char" where
  "digit16 d = ''0123456789abcdef'' ! d"

fun toString16_nat :: "nat \<Rightarrow> string" where
  "toString16_nat n =
     (if n < 16 then [digit16 n] else toString16_nat (n div 16) @ [digit16 (n mod 16)])"

declare toString16_nat.simps [simp del]

fun toString16 :: "number \<Rightarrow> string" where
  "toString16 NaN = ''NaN''"
| "toString16 PosInfinity = ''Infinity''"
| "toString16 NegInfinity = ''-Infinity''"
| "toString16 (Fin x) =
     (if x < 0 then ''-'' else '''') @ toString16_nat (nat \<lfloor>\<bar>x\<bar>\<rfloor>)"

text \<open>\<open>parseInt(str, 16)\<close> on a string of hexadecimal digits.\<close>

definition is_hex_digit :: "char \<Rightarrow> bool" where
  "is_hex_digit c \<longleftrightarrow> c \<in> set ''0123456789ABCDEFabcdef''"

definition digit_value :: "char \<Rightarrow> nat" where
  "digit_value c =
     (if c \<in> set ''0123456789'' then of_char c - 48
      else if c \<in> set ''ABCDEF'' then of_char c - 55
      else of_char c - 87)"

definition parseInt16 :: "string \<Rightarrow> nat" where
  "parseInt16 str = foldl (\<lambda>acc c. 16 * acc + digit_value c) 0 str"

section \<open>colorConversions.ts\<close>

record RGB =
  rgb_r :: real
  rgb_g :: real
  rgb_b :: real

record HSL =
  hsl_h :: real
  hsl_s :: real
  hsl_l :: real

text \<open>\<open>hexToRgb\<close>: one leading \<open>#\<close> is removed, a string of length 3 is expanded by
  doubling each character, and the result must be exactly six hexadecimal digits.\<close>

definition strip_hash :: "string \<Rightarrow> string" where
  "strip_hash hx = (case hx of c # rest \<Rightarrow> if c = CHR ''#'' then rest else hx | [] \<Rightarrow> hx)"

definition expand_shorthand :: "string \<Rightarrow> string" where
  "expand_shorthand cleanHex =
     (if length cleanHex = 3 then concat (map (\<lambda>c. [c, c]) cleanHex) else cleanHex)"

definition hexToRgb :: "string \<Rightarrow> error + RGB" where
  "hexToRgb hx =
     (let cleanHex = expand_shorthand (strip_hash hx) in
      if \<not> (length cleanHex = 6 \<and> list_all is_hex_digit cleanHex) then Inl (InvalidColorFormat hx)
      else Inr \<lparr>rgb_r = real (parseInt16 (take 2 cleanHex)),
                rgb_g = real (parseInt16 (take 2 (drop 2 cleanHex))),
                rgb_b = real (parseInt16 (take 2 (drop 4 cleanHex)))\<rparr>)"

definition toHex :: "number \<Rightarrow> string" where
  "toHex n =
     (let clamped = Math_max (Fin 0) (Math_min (Fin 255) (Math_round n));
          hx = toString16 clamped
      in if length hx = 1 then CHR ''0'' # hx else hx)"

definition rgbToHex :: "number \<Rightarrow> number \<Rightarrow> number \<Rightarrow> string" where
  "rgbToHex r g b = toUpperCase (''#'' @ toHex r @ toHex g @ toHex b)"

definition rgbToHsl :: "real \<Rightarrow> real \<Rightarrow> real \<Rightarrow> HSL" where
  "rgbToHsl r0 g0 b0 =
     (let r = fl (r0 / 255); g = fl (g0 / 255); b = fl (b0 / 255);
          mx = max (max r g) b;
          mn = min (min r g) b;
          diff = fl (mx - mn);
          l = fl (fl (mx + mn) / 2)
      in if diff \<noteq> 0 then
           let s = (if l > 0.5 then fl (diff / fl (fl (2 - mx) - mn))
                    else fl (diff / fl (mx + mn)));
               h = (if mx = r then
                      fl (fl (fl (fl (g - b) / diff) + (if g < b then 6 else 0)) / 6)
                    else if mx = g then fl (fl (fl (fl (b - r) / diff) + 2) / 6)
                    else fl (fl (fl (fl (r - g) / diff) + 4) / 6))
           in \<lparr>hsl_h = fl (h * 360), hsl_s = fl (s * 100), hsl_l = fl (l * 100)\<rparr>
         else \<lparr>hsl_h = fl (0 * 360), hsl_s = fl (0 * 100), hsl_l = fl (l * 100)\<rparr>)"

definition hue2rgb :: "real \<Rightarrow> real \<Rightarrow> real \<Rightarrow> real" where
  "hue2rgb p q t0 =
     (let t1 = (if t0 < 0 then fl (t0 + 1) else t0);
          t = (if t1 > 1 then fl (t1 - 1) else t1)
      in if t < fl (1 / 6) then fl (p + fl (fl (fl (q - p) * 6) * t))
         else if t < 1 / 2 then q
         else if t < fl (2 / 3) then fl (p + fl (fl (fl (q - p) * fl (fl (2 / 3) - t)) * 6))
         else p)"

definition hslToRgb :: "real \<Rightarrow> real \<Rightarrow> real \<Rightarrow> RGB" where
  "hslToRgb h0 s0 l0 =
     (let h = fl (h0 / 360); s = fl (s0 / 100); l = fl (l0 / 100)
      in if s = 0 then
           let v = js_round (fl (l * 255)) in \<lparr>rgb_r = v, rgb_g = v, rgb_b = v\<rparr>
         else
           let q = (if l < 0.5 then fl (l * fl (1 + s)) else fl (fl (l + s) - fl (l * s)));
               p = fl (fl (2 * l) - q);
               r = hue2rgb p q (fl (h + fl (1 / 3)));
               g = hue2rgb p q h;
               b = hue2rgb p q (fl (h - fl (1 / 3)))
           in \<lparr>rgb_r = js_round (fl (r * 255)), rgb_g = js_round (fl (g * 255)),
               rgb_b = js_round (fl (b * 255))\<rparr>)"

definition hslToHex :: "real \<Rightarrow> real \<Rightarrow> real \<Rightarrow> string" where
  "hslToHex h s l =
     (let rgb = hslToRgb h s l in rgbToHex (Fin (rgb_r rgb)) (Fin (rgb_g rgb)) (Fin (rgb_b rgb)))"

section \<open>colorNaming.ts\<close>

record ColorClassification =
  fullName :: string
  tokenName :: string
  tone :: string
  hueGroup :: string
  hsl :: HSL

text \<open>Reading an array at an index: \<open>undefined\<close> outside the array is \<open>None\<close>.\<close>

definition lookup :: "'a list \<Rightarrow> int \<Rightarrow> 'a option" where
  "lookup xs i = (if 0 \<le> i \<and> nat i < length xs then Some (xs ! nat i) else None)"

definition norm_hue :: "real \<Rightarrow> real" where
  "norm_hue v = js_rem (fl (v + 360)) 360"

definition choose_name :: "real \<Rightarrow> real \<Rightarrow> real \<Rightarrow> string list \<Rightarrow> string" where
  "choose_name h a b names =
     (let pos = fl (fl (h - a) / fl (b - a));
          idx = min (int (length names) - 1) (\<lfloor>fl (pos * real (length names))\<rfloor>)
      in case lookup names idx of Some n \<Rightarrow> n
         | None \<Rightarrow> (case lookup names 0 of Some n \<Rightarrow> n | None \<Rightarrow> ''Gray''))"

definition getHueName :: "real \<Rightarrow> real \<Rightarrow> string" where
  "getHueName h0 s =
     (if s < 8 then ''Neutral''
      else let h = norm_hue h0 in
        if h < 15 then choose_name h 0 15 [''Scarlet'', ''Red'', ''Crimson'']
        else if h < 35 then choose_name h 15 35 [''Tangerine'', ''Orange'']
        else if h < 50 then choose_name h 35 50 [''Amber'', ''Honey'']
        else if h < 70 then choose_name h 50 70 [''Lemon'', ''Yellow'', ''Gold'']
        else if h < 85 then choose_name h 70 85 [''Lime'', ''Chartreuse'']
        else if h < 155 then choose_name h 85 155 [''Mint'', ''Green'', ''Emerald'']
        else if h < 180 then choose_name h 155 180 [''Teal'', ''Aqua'']
        else if h < 200 then choose_name h 180 200 [''Cyan'', ''Sky'']
        else if h < 240 then choose_name h 200 240 [''Azure'', ''Blue'', ''Cobalt'']
        else if h < 270 then ''Indigo''
        else if h < 295 then choose_name h 270 295 [''Violet'', ''Lavender'']
        else if h < 320 then choose_name h 295 320 [''Purple'', ''Grape'']
        else if h < 335 then choose_name h 320 335 [''Magenta'', ''Fuchsia'']
        else if h < 350 then choose_name h 335 350 [''Rose'', ''Cerise'', ''Rosewood'']
        else choose_name h 350 360 [''Scarlet'', ''Red'', ''Crimson''])"

text \<open>The object \<open>toneBuckets\<close>, one constant for each of its keys.\<close>

definition veryLight :: "string list" where "veryLight = [''Pale'', ''Washed'', ''Faint'']"
definition lightSoft :: "string list" where "lightSoft = [''Soft'', ''Subdued'']"
definition light :: "string list" where "light = [''Light'', ''Gentle'']"
definition bright :: "string list" where "bright = [''Bright'', ''Lively'']"
definition muted :: "string list" where "muted = [''Muted'', ''Hazy'', ''Smokey'']"
definition medium :: "string list" where "medium = [''Medium'', ''Balanced'']"
definition vivid :: "string list" where "vivid = [''Vivid'', ''Strong'']"
definition dim :: "string list" where "dim = [''Dim'', ''Muddy'', ''Dirty'']"
definition dark :: "string list" where "dark = [''Dark'']"
definition rich :: "string list" where "rich = [''Rich'', ''Intense'']"
definition charcoal :: "string list" where "charcoal = [''Charcoal'', ''Dusky'']"
definition deep :: "string list" where "deep = [''Deep'']"
definition inky :: "string list" where "inky = [''Inky'']"

definition deterministicPick :: "string list \<Rightarrow> real \<Rightarrow> real \<Rightarrow> real \<Rightarrow> string" where
  "deterministicPick list h s l =
     (let seed = \<lfloor>js_rem (fl (fl (fl (h * 7) + fl (s * 5)) + fl (l * 3)))
                         (real (length list))\<rfloor>
      in case lookup list seed of Some n \<Rightarrow> n
         | None \<Rightarrow> (case lookup list 0 of Some n \<Rightarrow> n | None \<Rightarrow> ''Medium''))"

definition getToneName :: "real \<Rightarrow> real \<Rightarrow> real \<Rightarrow> string" where
  "getToneName s l h =
     (if l > 85 then deterministicPick veryLight h s l
      else if l > 65 then
        (if s < 30 then deterministicPick lightSoft h s l
         else if s < 60 then deterministicPick light h s l
         else deterministicPick bright h s l)
      else if l > 35 then
        (if s < 30 then deterministicPick muted h s l
         else if s < 60 then deterministicPick medium h s l
         else deterministicPick vivid h s l)
      else if l > 25 then
        (if s < 30 then deterministicPick dim h s l
         else if s < 70 then deterministicPick dark h s l
         else deterministicPick rich h s l)
      else if s < 30 then deterministicPick charcoal h s l
      else if s < 70 then deterministicPick deep h s l
      else deterministicPick inky h s l)"

text \<open>\<open>str.replace(/[\s-]+/g, "")\<close>: every maximal run of white space and hyphens is
  replaced by the empty string. White space is the class \<open>\s\<close> within Latin-1.\<close>

definition is_space_or_hyphen :: "char \<Rightarrow> bool" where
  "is_space_or_hyphen c \<longleftrightarrow> (of_char c :: nat) \<in> {9, 10, 11, 12, 13, 32, 160} \<or> c = CHR ''-''"

function replace_runs :: "string \<Rightarrow> string" where
  "replace_runs [] = []"
| "replace_runs (c # cs) =
     (if is_space_or_hyphen c then replace_runs (dropWhile is_space_or_hyphen cs)
      else c # replace_runs cs)"
  by pat_completeness auto
termination
  by (relation "measure length") (auto simp: less_Suc_eq_le length_dropWhile_le)

text \<open>\<open>str.replace(/^./, (c) => c.toLowerCase())\<close>: the dot does not match a line
  terminator, and an empty string has no match.\<close>

definition replace_first_lower :: "string \<Rightarrow> string" where
  "replace_first_lower str =
     (case str of [] \<Rightarrow> []
      | c # cs \<Rightarrow> if (of_char c :: nat) \<in> {10, 13} then str else toLowerCase_char c # cs)"

definition classifyHexColor :: "string \<Rightarrow> error + ColorClassification" where
  "classifyHexColor hx =
     (case hexToRgb hx of Inl e \<Rightarrow> Inl e
      | Inr rgb \<Rightarrow>
          let hsl' = rgbToHsl (rgb_r rgb) (rgb_g rgb) (rgb_b rgb);
              hueGroup' = getHueName (hsl_h hsl') (hsl_s hsl');
              tone' = getToneName (hsl_s hsl') (hsl_l hsl') (hsl_h hsl');
              fullName' = (if hueGroup' = ''Neutral'' then tone' @ '' Neutral''
                           else tone' @ '' '' @ hueGroup');
              tokenName' = replace_first_lower (replace_runs fullName')
          in Inr \<lparr>fullName = fullName', tokenName = tokenName', tone = tone',
                   hueGroup = hueGroup', hsl = hsl'\<rparr>)"

section \<open>colorPalette.ts\<close>

definition channel :: "real \<Rightarrow> real" where
  "channel c0 =
     (let c = fl (c0 / 255)
      in if c \<le> fl 0.03928 then fl (c / fl 12.92)
         else Math_pow (fl (fl (c + fl 0.055) / fl 1.055)) (fl 2.4))"

definition getLuminanceHex :: "string \<Rightarrow> error + real" where
  "getLuminanceHex hx =
     (case hexToRgb hx of Inl e \<Rightarrow> Inl e
      | Inr rgb \<Rightarrow>
          Inr (fl (fl (fl (fl 0.2126 * channel (rgb_r rgb))
                           + fl (fl 0.7152 * channel (rgb_g rgb)))
                       + fl (fl 0.0722 * channel (rgb_b rgb)))))"

definition getContrastRatio :: "string \<Rightarrow> string \<Rightarrow> error + real" where
  "getContrastRatio a b =
     (case getLuminanceHex a of Inl e \<Rightarrow> Inl e
      | Inr lum1 \<Rightarrow>
          (case getLuminanceHex b of Inl e \<Rightarrow> Inl e
           | Inr lum2 \<Rightarrow>
               let bright' = max lum1 lum2; dark' = min lum1 lum2
               in Inr (fl (fl (bright' + fl 0.05) / fl (dark' + fl 0.05)))))"

datatype wcag = AAA | AA | Fail

definition compliance :: "real \<Rightarrow> wcag" where
  "compliance ratio = (if ratio \<ge> 7 then AAA else if ratio \<ge> 4.5 then AA else Fail)"

record ColorStep =
  step :: nat
  hex :: string
  contrastWhite :: real
  contrastDark :: real
  wcagWhite :: wcag
  wcagDark :: wcag
  isChosenColor :: bool

record ColorPalette =
  name :: string
  paletteTokenName :: string
  chosenStep :: nat
  steps :: "ColorStep list"
  classification :: ColorClassification

definition stepValues :: "nat list" where
  "stepValues = [50, 100, 200, 300, 400, 500, 600, 700, 800, 900]"

definition lightnessSteps :: "real list" where
  "lightnessSteps = [95, 90, 80, 65, 50, 40, 30, 20, 12, 8]"

text \<open>The first loop of \<open>generateColorPalette\<close>: a scan from index \<open>i\<close> that keeps the
  index of the smallest difference found so far; only a strictly smaller difference
  replaces it.\<close>

function closest_loop :: "real \<Rightarrow> nat \<Rightarrow> nat \<Rightarrow> real \<Rightarrow> nat" where
  "closest_loop l i closestIndex minDiff =
     (if i < length lightnessSteps then
        (case lookup lightnessSteps (int i) of
           None \<Rightarrow> closest_loop l (i + 1) closestIndex minDiff
         | Some stepLightness \<Rightarrow>
             let diff = \<bar>fl (l - stepLightness)\<bar>
             in if diff < minDiff then closest_loop l (i + 1) i diff
                else closest_loop l (i + 1) closestIndex minDiff)
      else closestIndex)"
  by pat_completeness auto
termination
  by (relation "measure (\<lambda>(l, i, c, m). length lightnessSteps - i)") auto

declare closest_loop.simps [simp del]

text \<open>The body of the second loop: the hex value of step \<open>i\<close>, then the step record.\<close>

definition step_hex :: "string \<Rightarrow> HSL \<Rightarrow> nat \<Rightarrow> nat \<Rightarrow> real \<Rightarrow> string" where
  "step_hex hx baseHsl closestIndex i stepLightness =
     (if i = closestIndex then toUpperCase hx
      else
        let s0 = hsl_s baseHsl;
            s1 = (if i < 2 then fl (s0 * fl 0.3) else s0);
            s2 = (if i > 7 then min (fl (s1 * fl 1.2)) 100 else s1)
        in hslToHex (hsl_h baseHsl) s2 stepLightness)"

definition make_step :: "string \<Rightarrow> HSL \<Rightarrow> nat \<Rightarrow> nat \<Rightarrow> nat \<Rightarrow> real \<Rightarrow> error + ColorStep" where
  "make_step hx baseHsl closestIndex i stepValue stepLightness =
     (let stepHex = step_hex hx baseHsl closestIndex i stepLightness
      in case getContrastRatio stepHex ''#FFFFFF'' of Inl e \<Rightarrow> Inl e
         | Inr cw \<Rightarrow>
             (case getContrastRatio stepHex ''#0A0A0A'' of Inl e \<Rightarrow> Inl e
              | Inr cd \<Rightarrow>
                  Inr \<lparr>step = stepValue, hex = stepHex, contrastWhite = cw,
                       contrastDark = cd, wcagWhite = compliance cw,
                       wcagDark = compliance cd, isChosenColor = (i = closestIndex)\<rparr>))"

function steps_loop :: "string \<Rightarrow> HSL \<Rightarrow> nat \<Rightarrow> nat \<Rightarrow> ColorStep list \<Rightarrow> error + ColorStep list" where
  "steps_loop hx baseHsl closestIndex i acc =
     (if i < length stepValues then
        (case (lookup stepValues (int i), lookup lightnessSteps (int i)) of
           (Some stepValue, Some stepLightness) \<Rightarrow>
             (case make_step hx baseHsl closestIndex i stepValue stepLightness of
                Inl e \<Rightarrow> Inl e
              | Inr st \<Rightarrow> steps_loop hx baseHsl closestIndex (i + 1) (acc @ [st]))
         | _ \<Rightarrow> steps_loop hx baseHsl closestIndex (i + 1) acc)
      else Inr acc)"
  by pat_completeness auto
termination
  by (relation "measure (\<lambda>(hx, b, c, i, acc). length stepValues - i)") auto

declare steps_loop.simps [simp del]

definition generateColorPalette :: "string \<Rightarrow> error + ColorPalette" where
  "generateColorPalette hx =
     (case classifyHexColor hx of Inl e \<Rightarrow> Inl e
      | Inr cls \<Rightarrow>
          let baseHsl = hsl cls;
              minDiff0 = \<bar>fl (hsl_l baseHsl
                           - (case lookup lightnessSteps 0 of Some v \<Rightarrow> v | None \<Rightarrow> 50))\<bar>;
              closestIndex = closest_loop (hsl_l baseHsl) 1 0 minDiff0
          in (case steps_loop hx baseHsl closestIndex 0 [] of Inl e \<Rightarrow> Inl e
              | Inr sts \<Rightarrow>
                  Inr \<lparr>name = fullName cls, paletteTokenName = tokenName cls,
                       chosenStep = (case lookup stepValues (int closestIndex) of
                                       Some v \<Rightarrow> v | None \<Rightarrow> 500),
                       steps = sts, classification = cls\<rparr>))"

section \<open>Notions used to state the properties\<close>

text \<open>The hex pattern: one optional leading \<open>#\<close>, then exactly three or exactly six
  hexadecimal digits of either case.\<close>

definition matches_hex_pattern :: "string \<Rightarrow> bool" where
  "matches_hex_pattern hx \<longleftrightarrow>
     (let digits = (if take 1 hx = ''#'' then drop 1 hx else hx)
      in (length digits = 3 \<or> length digits = 6) \<and> list_all is_hex_digit digits)"

text \<open>The output format \<open>#RRGGBB\<close> with upper-case digits.\<close>

definition is_upper_hex_digit :: "char \<Rightarrow> bool" where
  "is_upper_hex_digit c \<longleftrightarrow> c \<in> set ''0123456789ABCDEF''"

definition is_hex6_upper :: "string \<Rightarrow> bool" where
  "is_hex6_upper str \<longleftrightarrow>
     take 1 str = ''#'' \<and> length str = 7 \<and> list_all is_upper_hex_digit (drop 1 str)"

text \<open>The two upper-case digits of a channel value below 256.\<close>

definition hex2 :: "nat \<Rightarrow> string" where
  "hex2 k = [toUpperCase_char (digit16 (k div 16)), toUpperCase_char (digit16 (k mod 16))]"

text \<open>A channel rounded to the nearest integer and clamped to the interval from 0 to
  255; the infinities clamp to the ends, NaN stays NaN.\<close>

fun round_clamp :: "number \<Rightarrow> number" where
  "round_clamp (Fin x) = Fin (of_int (max 0 (min 255 (round x))))"
| "round_clamp PosInfinity = Fin 255"
| "round_clamp NegInfinity = Fin 0"
| "round_clamp NaN = NaN"

text \<open>The remainder \<open>x mod n\<close> on the reals.\<close>

definition real_mod :: "real \<Rightarrow> real \<Rightarrow> real" where
  "real_mod x n = x - n * of_int \<lfloor>x / n\<rfloor>"

text \<open>The table of hue bands: the interval \<open>[a, b)\<close> of each band and its names, and
  the index \<open>min (n - 1) (floor (((h - a) / (b - a)) * n))\<close> of a hue within a band of
  \<open>n\<close> names, its operations being those on doubles.\<close>

definition hue_bands :: "(real \<times> real \<times> string list) list" where
  "hue_bands =
     [(0, 15, [''Scarlet'', ''Red'', ''Crimson'']),
      (15, 35, [''Tangerine'', ''Orange'']),
      (35, 50, [''Amber'', ''Honey'']),
      (50, 70, [''Lemon'', ''Yellow'', ''Gold'']),
      (70, 85, [''Lime'', ''Chartreuse'']),
      (85, 155, [''Mint'', ''Green'', ''Emerald'']),
      (155, 180, [''Teal'', ''Aqua'']),
      (180, 200, [''Cyan'', ''Sky'']),
      (200, 240, [''Azure'', ''Blue'', ''Cobalt'']),
      (240, 270, [''Indigo'']),
      (270, 295, [''Violet'', ''Lavender'']),
      (295, 320, [''Purple'', ''Grape'']),
      (320, 335, [''Magenta'', ''Fuchsia'']),
      (335, 350, [''Rose'', ''Cerise'', ''Rosewood'']),
      (350, 360, [''Scarlet'', ''Red'', ''Crimson''])]"

definition band_index :: "real \<Rightarrow> real \<Rightarrow> real \<Rightarrow> nat \<Rightarrow> int" where
  "band_index h a b n = min (int n - 1) \<lfloor>fl (fl (fl (h - a) / fl (b - a)) * real n)\<rfloor>"

text \<open>The hue normalized as the classifier does it, \<open>(h + 360) mod 360\<close> with the sum
  rounded to a double.\<close>

definition normalized_hue :: "real \<Rightarrow> real" where
  "normalized_hue h = real_mod (fl (h + 360)) 360"

definition hue_vocabulary :: "string list" where
  "hue_vocabulary = ''Neutral'' # concat (map (\<lambda>(a, b, ns). ns) hue_bands)"

text \<open>The 13-bucket tone table and the index
  \<open>floor ((h * 7 + s * 5 + l * 3) mod n)\<close> of the adjective within a bucket of \<open>n\<close>
  adjectives, the products and sums being those on doubles.\<close>

definition tone_bucket :: "real \<Rightarrow> real \<Rightarrow> string list" where
  "tone_bucket s l =
     (if l > 85 then veryLight
      else if 65 < l \<and> l \<le> 85 then
        (if s < 30 then lightSoft else if s < 60 then light else bright)
      else if 35 < l \<and> l \<le> 65 then
        (if s < 30 then muted else if s < 60 then medium else vivid)
      else if 25 < l \<and> l \<le> 35 then
        (if s < 30 then dim else if s < 70 then dark else rich)
      else
        (if s < 30 then charcoal else if s < 70 then deep else inky))"


definition tone_buckets_all :: "string list list" where
  "tone_buckets_all = [veryLight, lightSoft, light, bright, muted, medium, vivid, dim, dark,
     rich, charcoal, deep, inky]"

text \<open>Removing all white space and hyphens; lower case for the first character only;
  the adjectives of all tone buckets.\<close>

definition remove_spaces_hyphens :: "string \<Rightarrow> string" where
  "remove_spaces_hyphens str = filter (\<lambda>c. \<not> is_space_or_hyphen c) str"

definition lower_first :: "string \<Rightarrow> string" where
  "lower_first str = (case str of [] \<Rightarrow> [] | c # cs \<Rightarrow> toLowerCase_char c # cs)"

definition tone_vocabulary :: "string list" where
  "tone_vocabulary = concat tone_buckets_all"

text \<open>The index chosen among the target lightness values: a smallest absolute
  difference from the lightness, and a strictly smaller one than at every lower index.\<close>

definition closest_first :: "real list \<Rightarrow> real \<Rightarrow> nat \<Rightarrow> bool" where
  "closest_first targets l k \<longleftrightarrow>
     k < length targets
     \<and> (\<forall>j<length targets. \<bar>l - targets ! k\<bar> \<le> \<bar>l - targets ! j\<bar>)
     \<and> (\<forall>j<k. \<bar>l - targets ! k\<bar> < \<bar>l - targets ! j\<bar>)"

text \<open>The saturation of a synthesized step at index \<open>i\<close>: the saturation of the input
  multiplied by 0.3 at the two lightest indices, multiplied by 1.2 and capped at 100 at
  the two darkest, double products.\<close>

definition adjusted_saturation :: "nat \<Rightarrow> real \<Rightarrow> real" where
  "adjusted_saturation i s =
     (if i \<in> {0, 1} then fl (s * fl 0.3)
      else if i \<in> {8, 9} then min (fl (s * fl 1.2)) 100 else s)"

text \<open>The two colours the contrast of a step is taken against, \<open>#FFFFFF\<close> and
  \<open>#0A0A0A\<close>; the relative luminance computed by \<open>getLuminanceHex\<close> from the
  channels, and the ratio computed by \<open>getContrastRatio\<close> from two luminances.\<close>

definition white :: RGB where
  "white = \<lparr>rgb_r = 255, rgb_g = 255, rgb_b = 255\<rparr>"

definition near_black :: RGB where
  "near_black = \<lparr>rgb_r = 10, rgb_g = 10, rgb_b = 10\<rparr>"

definition luminance :: "RGB \<Rightarrow> real" where
  "luminance rgb =
     fl (fl (fl (fl 0.2126 * channel (rgb_r rgb)) + fl (fl 0.7152 * channel (rgb_g rgb)))
         + fl (fl 0.0722 * channel (rgb_b rgb)))"

definition contrast :: "real \<Rightarrow> real \<Rightarrow> real" where
  "contrast lum1 lum2 = fl (fl (max lum1 lum2 + fl 0.05) / fl (min lum1 lum2 + fl 0.05))"

section \<open>Rounding to double precision\<close>

lemma rne_of_int: "rne (of_int n) = n"
  by (simp add: rne_def)

lemma rne_range: "\<lfloor>y\<rfloor> \<le> rne y" "rne y \<le> \<lfloor>y\<rfloor> + 1"
  by (simp_all add: rne_def Let_def)

lemma rne_mono:
  assumes "x \<le> y"
  shows "rne x \<le> rne y"
proof (cases "\<lfloor>x\<rfloor> = \<lfloor>y\<rfloor>")
  case True
  with assms show ?thesis by (auto simp: rne_def Let_def)
next
  case False
  with assms have "\<lfloor>x\<rfloor> + 1 \<le> \<lfloor>y\<rfloor>" using floor_mono[OF assms] by linarith
  with rne_range(2)[of x] rne_range(1)[of y] show ?thesis by linarith
qed

lemma rne_minus: "rne (- y) = - rne y"
proof (cases "y = of_int \<lfloor>y\<rfloor>")
  case True
  then obtain n where "y = of_int n" ..
  then show ?thesis using rne_of_int[of n] rne_of_int[of "- n"] by simp
next
  case False
  then have f: "\<lfloor>- y\<rfloor> = - \<lfloor>y\<rfloor> - 1"
    by (metis ceiling_altdef ceiling_def diff_minus_eq_add minus_diff_eq of_int_floor_cancel uminus_add_conv_diff minus_minus add.commute)
  show ?thesis
    unfolding rne_def Let_def f by (auto simp: algebra_simps)
qed

lemma rne_error: "\<bar>of_int (rne y) - y\<bar> \<le> 1 / 2"
proof -
  have "of_int \<lfloor>y\<rfloor> \<le> y" "y < of_int \<lfloor>y\<rfloor> + 1" by linarith+
  then show ?thesis by (auto simp: rne_def Let_def)
qed

lemma rne_ge: "of_int a \<le> y \<Longrightarrow> a \<le> rne y"
  using rne_mono[of "of_int a" y] by (simp add: rne_of_int)

lemma rne_le: "y \<le> of_int b \<Longrightarrow> rne y \<le> b"
  using rne_mono[of y "of_int b"] by (simp add: rne_of_int)

lemma pow2_pos: "0 < (2::real) powi q"
  by (simp add: zero_less_power_int)

lemma pow2_mono: "m \<le> n \<Longrightarrow> (2::real) powi m \<le> 2 powi n"
  by (rule power_int_increasing) simp_all

lemma pow2_less_imp: "(2::real) powi m < 2 powi n \<Longrightarrow> m < n"
  using pow2_mono[of n m] by (cases "m < n") simp_all

lemma pow2_add: "(2::real) powi (m + n) = 2 powi m * 2 powi n"
  by (simp add: power_int_add)

lemma pow2_nat: "(2::real) powi int n = 2 ^ n"
  by simp

lemma expo_bounds:
  assumes "0 < x"
  shows "2 powi (expo x) \<le> x" and "x < 2 powi (expo x + 1)"
proof -
  have "2 powi (expo x) \<le> x \<and> x < 2 powi (expo x + 1)"
  proof (cases "1 \<le> x")
    case True
    define n where "n = \<lfloor>x\<rfloor>"
    have n: "0 < n" "of_int n \<le> x" "x < of_int n + 1" using True by (auto simp: n_def)
    from bitlen_bounds[OF n(1)] have b: "2 ^ nat (bitlen n - 1) \<le> n" "n < 2 ^ nat (bitlen n)"
      by simp_all
    have b1: "1 \<le> bitlen n" using n(1) by (simp add: bitlen_alt_def)
    have e: "expo x = bitlen n - 1" using True by (simp add: expo_def n_def)
    have "(2::real) powi (bitlen n - 1) = 2 ^ nat (bitlen n - 1)"
      using b1 by (simp add: power_int_def)
    also have "\<dots> = of_int (2 ^ nat (bitlen n - 1))" by simp
    also have "\<dots> \<le> of_int n" using b(1) by (simp only: of_int_le_iff)
    finally have lo: "2 powi (expo x) \<le> x" using n(2) e by simp
    have "n + 1 \<le> 2 ^ nat (bitlen n)" using b(2) by simp
    then have "of_int (n + 1) \<le> (of_int (2 ^ nat (bitlen n))::real)" by (simp only: of_int_le_iff)
    then have "x < 2 ^ nat (bitlen n)" using n(3) by simp
    also have "(2::real) ^ nat (bitlen n) = 2 powi (bitlen n)"
      using b1 by (simp add: power_int_def)
    finally have hi: "x < 2 powi (expo x + 1)" using e by simp
    from lo hi show ?thesis ..
  next
    case False
    define y where "y = 1 / x"
    define m where "m = \<lceil>y\<rceil> - 1"
    have y: "1 < y" using False assms by (simp add: y_def)
    have m: "0 < m" "of_int m < y" "y \<le> of_int m + 1"
    proof -
      show "0 < m" using y by (simp add: m_def less_ceiling_iff)
      show "of_int m < y" unfolding m_def by linarith
      show "y \<le> of_int m + 1" unfolding m_def by simp
    qed
    from bitlen_bounds[OF m(1)] have b: "2 ^ nat (bitlen m - 1) \<le> m" "m < 2 ^ nat (bitlen m)"
      by simp_all
    have b1: "1 \<le> bitlen m" using m(1) by (simp add: bitlen_alt_def)
    have e: "expo x = - bitlen m" using False by (simp add: expo_def m_def y_def)
    have "m + 1 \<le> 2 ^ nat (bitlen m)" using b(2) by simp
    then have "of_int (m + 1) \<le> (of_int (2 ^ nat (bitlen m))::real)" by (simp only: of_int_le_iff)
    then have "y \<le> 2 ^ nat (bitlen m)" using m(3) by simp
    also have "(2::real) ^ nat (bitlen m) = 2 powi (bitlen m)" using b1 by (simp add: power_int_def)
    finally have "1 / (2 powi (bitlen m)) \<le> 1 / y"
      using y by (intro divide_left_mono) (simp_all add: pow2_pos)
    then have lo: "2 powi (expo x) \<le> x"
      using assms by (simp add: e y_def power_int_minus_divide)
    have "(2::real) powi (bitlen m - 1) = 2 ^ nat (bitlen m - 1)"
      using b1 by (simp add: power_int_def)
    also have "\<dots> = of_int (2 ^ nat (bitlen m - 1))" by simp
    also have "\<dots> \<le> of_int m" using b(1) by (simp only: of_int_le_iff)
    also have "\<dots> < y" by (rule m(2))
    finally have "1 / y < 1 / (2 powi (bitlen m - 1))"
      using y by (intro divide_strict_left_mono) (simp_all add: pow2_pos)
    then have "x < 1 / (2 powi (bitlen m - 1))"
      using assms by (simp add: y_def)
    also have "1 / ((2::real) powi (bitlen m - 1)) = 2 powi (- (bitlen m - 1))"
      by (simp only: power_int_minus_divide)
    finally have hi: "x < 2 powi (expo x + 1)" by (simp add: e algebra_simps)
    from lo hi show ?thesis ..
  qed
  then show "2 powi (expo x) \<le> x" and "x < 2 powi (expo x + 1)" by simp_all
qed

lemma expo_unique:
  assumes "2 powi e \<le> x" "x < 2 powi (e + 1)"
  shows "expo x = e"
proof -
  have x: "0 < x" using assms(1) pow2_pos[of e] by linarith
  note b = expo_bounds[OF x]
  have "(2::real) powi e < 2 powi (expo x + 1)" using assms(1) b(2) by linarith
  then have 1: "e < expo x + 1" by (rule pow2_less_imp)
  have "(2::real) powi (expo x) < 2 powi (e + 1)" using assms(2) b(1) by linarith
  then have 2: "expo x < e + 1" by (rule pow2_less_imp)
  from 1 2 show ?thesis by simp
qed

lemma expo_mono:
  assumes "0 < x" "x \<le> y"
  shows "expo x \<le> expo y"
proof -
  have y: "0 < y" using assms by simp
  have "(2::real) powi (expo x) < 2 powi (expo y + 1)"
    using expo_bounds(1)[OF assms(1)] expo_bounds(2)[OF y] assms(2) by linarith
  then have "expo x < expo y + 1" by (rule pow2_less_imp)
  then show ?thesis by simp
qed

lemma fl_alt: "fl x = of_int (rne (x / 2 powi ulp_exp x)) * 2 powi ulp_exp x"
  by (simp add: fl_def ulp_exp_def Let_def)

lemma fl_0: "fl 0 = 0"
  by (simp add: fl_alt rne_def)

lemma fl_minus: "fl (- x) = - fl x"
  by (simp add: fl_alt ulp_exp_def rne_minus)

lemma ulp_exp_mono:
  assumes "0 < x" "x \<le> y"
  shows "ulp_exp x \<le> ulp_exp y"
  using expo_mono[OF assms] assms by (simp add: ulp_exp_def)

lemma fl_nonneg:
  assumes "0 \<le> x"
  shows "0 \<le> fl x"
proof -
  have "0 \<le> x / 2 powi ulp_exp x" using assms by (simp add: pow2_pos less_imp_le)
  then have "0 \<le> rne (x / 2 powi ulp_exp x)" using rne_ge[of 0] by simp
  then show ?thesis by (simp add: fl_alt pow2_pos less_imp_le)
qed

lemma fl_upper:
  assumes "0 < x"
  shows "fl x \<le> 2 powi (ulp_exp x + 53)"
proof -
  have "x < 2 powi (expo x + 1)" by (rule expo_bounds(2)[OF assms])
  also have "\<dots> \<le> 2 powi (ulp_exp x + 53)"
    using assms by (intro pow2_mono) (simp add: ulp_exp_def)
  also have "\<dots> = 2 powi 53 * 2 powi ulp_exp x"
    by (simp add: pow2_add mult.commute)
  finally have "x / 2 powi ulp_exp x \<le> 2 powi 53"
    by (simp add: pos_divide_le_eq pow2_pos)
  then have "x / 2 powi ulp_exp x \<le> of_int (2 ^ 53)" by simp
  then have "rne (x / 2 powi ulp_exp x) \<le> 2 ^ 53" by (rule rne_le)
  then have "(of_int (rne (x / 2 powi ulp_exp x))::real) \<le> of_int (2 ^ 53)"
    by (simp only: of_int_le_iff)
  then have "fl x \<le> 2 powi 53 * 2 powi ulp_exp x"
    unfolding fl_alt by (intro mult_right_mono) (simp_all add: pow2_pos less_imp_le)
  then show ?thesis by (simp add: pow2_add mult.commute)
qed

lemma fl_lower:
  assumes "0 < x" "- 1022 \<le> expo x"
  shows "2 powi (ulp_exp x + 52) \<le> fl x"
proof -
  have u: "ulp_exp x = expo x - 52" using assms by (simp add: ulp_exp_def)
  have "(2::real) powi 52 * 2 powi ulp_exp x = 2 powi (52 + ulp_exp x)"
    by (simp only: pow2_add)
  also have "\<dots> = 2 powi (expo x)" by (simp add: u)
  also have "\<dots> \<le> x" by (rule expo_bounds(1)[OF assms(1)])
  finally have "2 powi 52 \<le> x / 2 powi ulp_exp x"
    by (simp add: pos_le_divide_eq pow2_pos)
  then have "of_int (2 ^ 52) \<le> x / 2 powi ulp_exp x" by simp
  then have "2 ^ 52 \<le> rne (x / 2 powi ulp_exp x)" by (rule rne_ge)
  then have "(of_int (2 ^ 52)::real) \<le> of_int (rne (x / 2 powi ulp_exp x))"
    by (simp only: of_int_le_iff)
  then have "2 powi 52 * 2 powi ulp_exp x \<le> fl x"
    unfolding fl_alt by (intro mult_right_mono) (simp_all add: pow2_pos less_imp_le)
  then show ?thesis by (simp add: pow2_add mult.commute)
qed

lemma fl_mono_pos:
  assumes "0 < x" "x \<le> y"
  shows "fl x \<le> fl y"
proof (cases "ulp_exp x = ulp_exp y")
  case True
  have "x / 2 powi ulp_exp y \<le> y / 2 powi ulp_exp y"
    using assms(2) by (simp add: divide_right_mono pow2_pos less_imp_le)
  then have "rne (x / 2 powi ulp_exp y) \<le> rne (y / 2 powi ulp_exp y)" by (rule rne_mono)
  then have "(of_int (rne (x / 2 powi ulp_exp y))::real) \<le> of_int (rne (y / 2 powi ulp_exp y))"
    by (simp only: of_int_le_iff)
  then show ?thesis
    unfolding fl_alt True by (intro mult_right_mono) (simp_all add: pow2_pos less_imp_le)
next
  case False
  with ulp_exp_mono[OF assms] have lt: "ulp_exp x < ulp_exp y" by simp
  have y: "0 < y" using assms by simp
  have "- 1074 \<le> ulp_exp x" by (simp add: ulp_exp_def)
  with lt have "- 1022 \<le> expo y" using y by (auto simp: ulp_exp_def max_def split: if_splits)
  from fl_lower[OF y this] have "2 powi (ulp_exp y + 52) \<le> fl y" .
  moreover have "(2::real) powi (ulp_exp x + 53) \<le> 2 powi (ulp_exp y + 52)"
    using lt by (intro pow2_mono) simp
  ultimately show ?thesis using fl_upper[OF assms(1)] by linarith
qed

lemma fl_mono:
  assumes "x \<le> y"
  shows "fl x \<le> fl y"
proof -
  consider "0 < x" | "x \<le> 0" "0 \<le> y" | "y < 0" by linarith
  then show ?thesis
  proof cases
    case 1
    then show ?thesis using fl_mono_pos assms by simp
  next
    case 2
    have "fl x = - fl (- x)" using fl_minus[of x] by simp
    moreover have "0 \<le> fl (- x)" using 2(1) by (intro fl_nonneg) simp
    ultimately show ?thesis using fl_nonneg[OF 2(2)] by linarith
  next
    case 3
    then have "fl (- y) \<le> fl (- x)" using assms by (intro fl_mono_pos) simp_all
    then show ?thesis by (simp add: fl_minus)
  qed
qed

lemma fl_exact_pos:
  assumes "0 < m" "m < 2 ^ 53" "- 1074 \<le> g"
  shows "fl (of_int m * 2 powi g) = of_int m * 2 powi g"
proof -
  let ?x = "of_int m * (2::real) powi g"
  have x: "0 < ?x" using assms(1) by (simp add: pow2_pos)
  have "of_int m < (of_int (2 ^ 53)::real)" using assms(2) by (simp only: of_int_less_iff)
  then have "of_int m < (2::real) powi 53" by simp
  then have "?x < 2 powi 53 * 2 powi g"
    by (intro mult_strict_right_mono) (simp_all only: pow2_pos)
  also have "(2::real) powi 53 * 2 powi g = 2 powi (53 + g)" by (simp only: pow2_add)
  finally have "2 powi (expo ?x) < (2::real) powi (53 + g)"
    using expo_bounds(1)[OF x] by linarith
  then have "expo ?x < 53 + g" by (rule pow2_less_imp)
  then have q: "ulp_exp ?x \<le> g" using assms(3) x by (simp add: ulp_exp_def)
  define d where "d = nat (g - ulp_exp ?x)"
  have g: "g = int d + ulp_exp ?x" using q by (simp add: d_def)
  have "?x / 2 powi ulp_exp ?x = of_int m * 2 powi (int d)"
    by (subst (1) g) (simp add: pow2_add pow2_pos)
  also have "\<dots> = of_int (m * 2 ^ d)" by simp
  finally have "rne (?x / 2 powi ulp_exp ?x) = m * 2 ^ d" by (simp only: rne_of_int)
  then have "fl ?x = of_int (m * 2 ^ d) * 2 powi ulp_exp ?x" by (simp only: fl_alt)
  also have "\<dots> = of_int m * (2 powi (int d) * 2 powi ulp_exp ?x)" by simp
  also have "2 powi (int d) * (2::real) powi ulp_exp ?x = 2 powi g"
    by (subst (2) g) (simp only: pow2_add)
  finally show ?thesis .
qed

lemma fl_exact:
  assumes "\<bar>m\<bar> \<le> 2 ^ 53" "- 1074 \<le> g"
  shows "fl (of_int m * 2 powi g) = of_int m * 2 powi g"
proof -
  have pos: "fl (of_int n * 2 powi g) = of_int n * 2 powi g" if "0 < n" "n \<le> 2 ^ 53" for n
  proof (cases "n = 2 ^ 53")
    case True
    have "of_int n * (2::real) powi g = of_int 1 * 2 powi (53 + g)"
      by (simp add: True pow2_add)
    moreover have "fl (of_int 1 * 2 powi (53 + g)) = of_int 1 * 2 powi (53 + g)"
      using assms(2) by (intro fl_exact_pos) simp_all
    ultimately show ?thesis by simp
  next
    case False
    with that show ?thesis using assms(2) by (intro fl_exact_pos) simp_all
  qed
  consider "m = 0" | "0 < m" | "m < 0" by linarith
  then show ?thesis
  proof cases
    case 1
    then show ?thesis by (simp add: fl_0)
  next
    case 2
    with assms(1) show ?thesis by (intro pos) simp_all
  next
    case 3
    with assms(1) have "fl (of_int (- m) * 2 powi g) = of_int (- m) * 2 powi g"
      by (intro pos) simp_all
    then show ?thesis using fl_minus[of "of_int m * 2 powi g"] by simp
  qed
qed

lemma fl_of_int:
  assumes "\<bar>k\<bar> \<le> 2 ^ 53"
  shows "fl (of_int k) = of_int k"
  using fl_exact[OF assms, of 0] by simp

lemma fl_numeral: "fl 360 = 360" "fl 720 = 720" "fl 1 = 1"
  using fl_of_int[of 360] fl_of_int[of 720] fl_of_int[of 1] by simp_all

text \<open>An equation for \<open>expo\<close> that evaluates faster.\<close>

lemma expo_code [code]:
  "expo x = (if 1 \<le> x then bitlen \<lfloor>x\<rfloor> - 1 else - bitlen (- \<lfloor>- (1 / x)\<rfloor> - 1))"
  by (simp add: expo_def ceiling_def)

lemma ulp_exp_ge: "- 1074 \<le> ulp_exp x"
  by (simp add: ulp_exp_def)

lemma ulp_exp_minus: "ulp_exp (- x) = ulp_exp x"
  by (simp add: ulp_exp_def)

lemma fl_abs: "\<bar>fl x\<bar> = fl \<bar>x\<bar>"
proof (cases "0 \<le> x")
  case True
  then show ?thesis using fl_nonneg[OF True] by simp
next
  case False
  then have "0 \<le> fl (- x)" by (intro fl_nonneg) simp
  with False show ?thesis by (simp add: fl_minus)
qed

lemma fl_repr_pos:
  assumes "0 < x"
  shows "\<exists>M. fl x = of_int M * 2 powi ulp_exp x \<and> 0 \<le> M \<and> M \<le> 2 ^ 53"
proof -
  let ?M = "rne (x / 2 powi ulp_exp x)"
  have "x < 2 powi (expo x + 1)" by (rule expo_bounds(2)[OF assms])
  also have "\<dots> \<le> 2 powi (ulp_exp x + 53)"
    using assms by (intro pow2_mono) (simp add: ulp_exp_def)
  also have "\<dots> = 2 powi 53 * 2 powi ulp_exp x"
    by (simp add: pow2_add mult.commute)
  finally have "x / 2 powi ulp_exp x \<le> 2 powi 53"
    by (simp add: pos_divide_le_eq pow2_pos)
  then have "x / 2 powi ulp_exp x \<le> of_int (2 ^ 53)" by simp
  then have 1: "?M \<le> 2 ^ 53" by (rule rne_le)
  have "of_int 0 \<le> x / 2 powi ulp_exp x" using assms by (simp add: pow2_pos less_imp_le)
  then have 2: "0 \<le> ?M" by (rule rne_ge)
  from 1 2 fl_alt[of x] show ?thesis by blast
qed

lemma fl_repr: "\<exists>M. fl x = of_int M * 2 powi ulp_exp x \<and> \<bar>M\<bar> \<le> 2 ^ 53"
proof -
  consider "x = 0" | "0 < x" | "x < 0" by linarith
  then show ?thesis
  proof cases
    case 1
    then show ?thesis by (intro exI[of _ 0]) (simp add: fl_0)
  next
    case 2
    from fl_repr_pos[OF 2] obtain M where "fl x = of_int M * 2 powi ulp_exp x" "0 \<le> M"
      "M \<le> 2 ^ 53" by blast
    then show ?thesis by (intro exI[of _ M]) simp
  next
    case 3
    then have "0 < - x" by simp
    from fl_repr_pos[OF this] obtain M where "fl (- x) = of_int M * 2 powi ulp_exp (- x)"
      "0 \<le> M" "M \<le> 2 ^ 53" by blast
    then show ?thesis by (intro exI[of _ "- M"]) (simp add: fl_minus ulp_exp_minus)
  qed
qed

lemma fl_idem: "fl (fl x) = fl x"
proof -
  from fl_repr[of x] obtain M where M: "fl x = of_int M * 2 powi ulp_exp x" "\<bar>M\<bar> \<le> 2 ^ 53"
    by blast
  show ?thesis unfolding M(1) by (rule fl_exact[OF M(2) ulp_exp_ge])
qed

lemma fl_error: "\<bar>fl x - x\<bar> \<le> 2 powi ulp_exp x / 2"
proof -
  let ?u = "(2::real) powi ulp_exp x"
  have u: "0 < ?u" by (rule pow2_pos)
  have "fl x - x = (of_int (rne (x / ?u)) - x / ?u) * ?u"
    using u by (simp add: fl_alt algebra_simps)
  then have "\<bar>fl x - x\<bar> = \<bar>of_int (rne (x / ?u)) - x / ?u\<bar> * ?u"
    using u by (simp add: abs_mult)
  also have "\<dots> \<le> 1 / 2 * ?u"
    using u by (intro mult_right_mono rne_error) simp
  finally show ?thesis by simp
qed

lemma fl_le_int:
  assumes "x \<le> of_int k" "\<bar>k\<bar> \<le> 2 ^ 53"
  shows "fl x \<le> of_int k"
  using fl_mono[OF assms(1)] fl_of_int[OF assms(2)] by simp

lemma fl_ge_int:
  assumes "of_int k \<le> x" "\<bar>k\<bar> \<le> 2 ^ 53"
  shows "of_int k \<le> fl x"
  using fl_mono[OF assms(1)] fl_of_int[OF assms(2)] by simp

lemma fl_range:
  assumes "of_int a \<le> x" "x \<le> of_int b" "\<bar>a\<bar> \<le> 2 ^ 53" "\<bar>b\<bar> \<le> 2 ^ 53"
  shows "of_int a \<le> fl x \<and> fl x \<le> of_int b"
  using fl_ge_int[OF assms(1,3)] fl_le_int[OF assms(2,4)] by simp

text \<open>A difference of a double and an integer that is not larger than the double is
  a double.\<close>

lemma fl_sub_exact:
  assumes "fl l = l" "0 \<le> l" "l < 2 ^ 53" "\<bar>l - of_int k\<bar> \<le> l"
  shows "fl (l - of_int k) = l - of_int k"
proof (cases "l = 0")
  case True
  with assms(4) have "k = 0" by simp
  with True show ?thesis by (simp add: fl_0)
next
  case False
  with assms(2) have l: "0 < l" by simp
  from fl_repr_pos[OF l] assms(1) obtain M where M: "l = of_int M * 2 powi ulp_exp l"
    "0 \<le> M" "M \<le> 2 ^ 53" by auto
  let ?q = "ulp_exp l"
  have "2 powi (expo l) \<le> l" by (rule expo_bounds(1)[OF l])
  with assms(3) have "(2::real) powi (expo l) < 2 powi 53" by simp
  then have "expo l < 53" by (rule pow2_less_imp)
  then have q: "?q \<le> 0" using l by (simp add: ulp_exp_def)
  define d where "d = nat (- ?q)"
  have dq: "int d + ?q = 0" using q by (simp add: d_def)
  have "(2::real) powi (int d) * 2 powi ?q = 2 powi (int d + ?q)" by (simp only: pow2_add)
  then have one: "(2::real) ^ d * 2 powi ?q = 1" by (simp add: dq)
  have "of_int (k * 2 ^ d) * (2::real) powi ?q = of_int k * (2 ^ d * 2 powi ?q)" by simp
  then have k: "of_int k = of_int (k * 2 ^ d) * (2::real) powi ?q" by (simp add: one)
  have eq: "l - of_int k = of_int (M - k * 2 ^ d) * 2 powi ?q"
    by (subst k, subst (1) M(1)) (simp add: algebra_simps)
  have "\<bar>of_int (M - k * 2 ^ d) * (2::real) powi ?q\<bar> \<le> of_int M * 2 powi ?q"
    using assms(4) eq M(1) by simp
  then have "\<bar>(of_int (M - k * 2 ^ d))::real\<bar> * 2 powi ?q \<le> of_int M * 2 powi ?q"
    by (simp add: abs_mult pow2_pos less_imp_le)
  then have "\<bar>(of_int (M - k * 2 ^ d))::real\<bar> \<le> of_int M"
    by (simp add: pow2_pos)
  then have "(of_int \<bar>M - k * 2 ^ d\<bar>::real) \<le> of_int M" by simp
  then have "\<bar>M - k * 2 ^ d\<bar> \<le> M" by (simp only: of_int_le_iff)
  with M(3) have b: "\<bar>M - k * 2 ^ d\<bar> \<le> 2 ^ 53" by simp
  show ?thesis unfolding eq by (rule fl_exact[OF b ulp_exp_ge])
qed

text \<open>Two numbers that are at least 1 apart round to different doubles.\<close>

lemma fl_strict_gap:
  assumes "0 \<le> x" "x + 1 \<le> y" "y \<le> 2 ^ 51"
  shows "fl x < fl y"
proof -
  define n where "n = \<lfloor>2 * x\<rfloor>"
  have n: "0 \<le> n" "of_int n \<le> 2 * x" "2 * x < of_int n + 1"
    using assms(1) by (simp_all add: n_def)
  have "of_int n \<le> (2::real) * 2 ^ 51" using n(2) assms(2,3) by linarith
  then have "of_int n \<le> (of_int (2 ^ 52)::real)" by simp
  then have n52: "n \<le> 2 ^ 52" by (simp only: of_int_le_iff)
  have e1: "fl (of_int (n + 1) * 2 powi (- 1)) = of_int (n + 1) * 2 powi (- 1)"
    using n(1) n52 by (intro fl_exact) simp_all
  have e2: "fl (of_int (n + 2) * 2 powi (- 1)) = of_int (n + 2) * 2 powi (- 1)"
    using n(1) n52 by (intro fl_exact) simp_all
  have h: "(2::real) powi (- 1) = 1 / 2" by (simp add: power_int_minus)
  have "x \<le> of_int (n + 1) * 2 powi (- 1)" using n(3) by (simp add: h)
  from fl_mono[OF this] have 1: "fl x \<le> of_int (n + 1) * 2 powi (- 1)" by (simp only: e1)
  have "of_int (n + 2) * 2 powi (- 1) \<le> y" using n(2) assms(2) by (simp add: h)
  from fl_mono[OF this] have 2: "of_int (n + 2) * 2 powi (- 1) \<le> fl y" by (simp only: e2)
  have "of_int (n + 1) * (2::real) powi (- 1) < of_int (n + 2) * 2 powi (- 1)"
    by (simp add: h)
  with 1 2 show ?thesis by linarith
qed

text \<open>For a double \<open>l\<close> between 0 and 100 and two positive integers up to 100, the
  rounded differences compare as the exact ones.\<close>

lemma fl_diff_strict:
  assumes l: "fl l = l" "0 \<le> l" "l \<le> 100"
    and a: "1 \<le> ka" "ka \<le> 100" and b: "1 \<le> kb" "kb \<le> 100"
    and lt: "\<bar>l - of_int kb\<bar> < \<bar>l - of_int ka\<bar>"
  shows "\<bar>fl (l - of_int kb)\<bar> < \<bar>fl (l - of_int ka)\<bar>"
proof -
  let ?a = "(of_int ka)::real" and ?b = "(of_int kb)::real"
  let ?x = "\<bar>l - ?b\<bar>" and ?y = "\<bar>l - ?a\<bar>"
  have ra: "1 \<le> ?a" "?a \<le> 100" using a by simp_all
  have rb: "1 \<le> ?b" "?b \<le> 100" using b by simp_all
  have l53: "l < 2 ^ 53" using l(3) by simp
  have ex: "\<bar>l - of_int k\<bar> \<le> l \<Longrightarrow> \<bar>fl (l - of_int k)\<bar> = \<bar>l - of_int k\<bar>" for k
    using fl_sub_exact[OF l(1,2) l53] by simp
  have "fl ?x < fl ?y"
  proof (cases "?x + 1 \<le> ?y")
    case True
    have "?y \<le> 2 ^ 51" using l ra by (simp add: abs_le_iff) 
    with True show ?thesis by (intro fl_strict_gap) simp_all
  next
    case False
    have between: "(?a < l \<and> l < ?b) \<or> (?b < l \<and> l < ?a)"
    proof (rule ccontr)
      assume n: "\<not> ((?a < l \<and> l < ?b) \<or> (?b < l \<and> l < ?a))"
      then consider "l \<le> ?a" "l \<le> ?b" | "?a \<le> l" "?b \<le> l" by linarith
      then show False
      proof cases
        case 1
        with lt have "?b < ?a" by simp
        then have "kb < ka" by (simp only: of_int_less_iff)
        then have "kb + 1 \<le> ka" by simp
        then have "(of_int (kb + 1)::real) \<le> of_int ka" by (simp only: of_int_le_iff)
        with 1 False show False by simp
      next
        case 2
        with lt have "?a < ?b" by simp
        then have "ka < kb" by (simp only: of_int_less_iff)
        then have "ka + 1 \<le> kb" by simp
        then have "(of_int (ka + 1)::real) \<le> of_int kb" by (simp only: of_int_le_iff)
        with 2 False show False by simp
      qed
    qed
    then show ?thesis
    proof
      assume c: "?a < l \<and> l < ?b"
      with lt ra have "?x \<le> l" "?y \<le> l" by simp_all
      with ex[of kb] ex[of ka] lt show ?thesis by (simp add: fl_abs)
    next
      assume c: "?b < l \<and> l < ?a"
      with rb have x: "?x \<le> l" "?x < l" by simp_all
      show ?thesis
      proof (cases "?y \<le> l")
        case True
        with ex[of kb] ex[of ka] x(1) lt show ?thesis by (simp add: fl_abs)
      next
        case False
        then have "l \<le> ?y" by simp
        from fl_mono[OF this] l(1) have "l \<le> fl ?y" by simp
        moreover have "fl ?x = ?x" using ex[OF x(1)] by (simp add: fl_abs)
        ultimately show ?thesis using x(2) by linarith
      qed
    qed
  qed
  then show ?thesis by (simp add: fl_abs)
qed

lemma fl_diff_less_iff:
  assumes "fl l = l" "0 \<le> l" "l \<le> 100" "1 \<le> ka" "ka \<le> 100" "1 \<le> kb" "kb \<le> 100"
  shows "\<bar>fl (l - of_int kb)\<bar> < \<bar>fl (l - of_int ka)\<bar> \<longleftrightarrow> \<bar>l - of_int kb\<bar> < \<bar>l - of_int ka\<bar>"
proof
  assume "\<bar>l - of_int kb\<bar> < \<bar>l - of_int ka\<bar>"
  then show "\<bar>fl (l - of_int kb)\<bar> < \<bar>fl (l - of_int ka)\<bar>"
    by (rule fl_diff_strict[OF assms])
next
  assume f: "\<bar>fl (l - of_int kb)\<bar> < \<bar>fl (l - of_int ka)\<bar>"
  show "\<bar>l - of_int kb\<bar> < \<bar>l - of_int ka\<bar>"
  proof (rule ccontr)
    assume "\<not> \<bar>l - of_int kb\<bar> < \<bar>l - of_int ka\<bar>"
    then have "\<bar>l - of_int ka\<bar> \<le> \<bar>l - of_int kb\<bar>" by simp
    from fl_mono[OF this] f show False by (simp add: fl_abs)
  qed
qed

section \<open>Hex strings\<close>

lemma digit16_table:
  "\<forall>d \<in> set [0..<16]. is_upper_hex_digit (toUpperCase_char (digit16 d))
       \<and> digit_value (toUpperCase_char (digit16 d)) = d"
  by code_simp

lemma digit16_upper:
  assumes "d < 16"
  shows "is_upper_hex_digit (toUpperCase_char (digit16 d))"
    and "digit_value (toUpperCase_char (digit16 d)) = d"
  using assms digit16_table by auto

lemma upper_hex_is_hex: "is_upper_hex_digit c \<Longrightarrow> is_hex_digit c"
  by (auto simp: is_upper_hex_digit_def is_hex_digit_def)

lemma toString16_nat_small: "n < 16 \<Longrightarrow> toString16_nat n = [digit16 n]"
  by (simp add: toString16_nat.simps)

lemma toString16_nat_two:
  "16 \<le> n \<Longrightarrow> n < 256 \<Longrightarrow> toString16_nat n = [digit16 (n div 16), digit16 (n mod 16)]"
  by (subst toString16_nat.simps) (simp add: toString16_nat_small)

lemma toHex_of_clamped:
  assumes "Math_max (Fin 0) (Math_min (Fin 255) (Math_round n)) = Fin (real k)" and "k < 256"
  shows "toUpperCase (toHex n) = hex2 k"
proof (cases "k < 16")
  case True
  then show ?thesis
    by (simp add: toHex_def assms(1) toUpperCase_def toString16_nat_small hex2_def
        digit16_def toUpperCase_char_def)
next
  case False
  with assms(2) show ?thesis
    by (simp add: toHex_def assms(1) toUpperCase_def toString16_nat_two hex2_def)
qed

lemma clamped_value:
  assumes "n \<noteq> NaN"
  shows "\<exists>k<256. Math_max (Fin 0) (Math_min (Fin 255) (Math_round n)) = Fin (real k)
            \<and> round_clamp n = Fin (real k)"
proof (cases n)
  case (Fin x)
  define k where "k = nat (max 0 (min 255 (round x)))"
  have k: "k < 256" and rk: "real k = of_int (max 0 (min 255 (round x)))"
    by (auto simp: k_def)
  have "max 0 (min 255 (js_round x)) = of_int (max 0 (min 255 (round x)))"
    by (simp add: js_round_def round_def max_def min_def)
  with k rk Fin show ?thesis
    by (intro exI[of _ k]) simp
next
  case PosInfinity
  then show ?thesis by (intro exI[of _ 255]) simp
next
  case NegInfinity
  then show ?thesis by (intro exI[of _ 0]) simp
next
  case NaN
  with assms show ?thesis by simp
qed

lemma toHex_hex2:
  assumes "n \<noteq> NaN"
  shows "\<exists>k<256. toUpperCase (toHex n) = hex2 k \<and> round_clamp n = Fin (real k)"
  using clamped_value[OF assms] toHex_of_clamped by blast

lemma hex2_props:
  assumes "k < 256"
  shows "length (hex2 k) = 2" and "list_all is_upper_hex_digit (hex2 k)"
    and "parseInt16 (hex2 k) = k"
proof -
  have d: "k div 16 < 16" "k mod 16 < 16" using assms by auto
  show "length (hex2 k) = 2" by (simp add: hex2_def)
  show "list_all is_upper_hex_digit (hex2 k)"
    using digit16_upper(1)[OF d(1)] digit16_upper(1)[OF d(2)] by (simp add: hex2_def)
  show "parseInt16 (hex2 k) = k"
    using digit16_upper(2)[OF d(1)] digit16_upper(2)[OF d(2)]
    by (simp add: hex2_def parseInt16_def)
qed

lemma rgbToHex_shape:
  assumes "r \<noteq> NaN" "g \<noteq> NaN" "b \<noteq> NaN"
  shows "\<exists>i j k. i < 256 \<and> j < 256 \<and> k < 256
           \<and> rgbToHex r g b = CHR ''#'' # hex2 i @ hex2 j @ hex2 k
           \<and> round_clamp r = Fin (real i) \<and> round_clamp g = Fin (real j)
           \<and> round_clamp b = Fin (real k)"
proof -
  from toHex_hex2[OF assms(1)] obtain i where i: "i < 256" "toUpperCase (toHex r) = hex2 i"
    "round_clamp r = Fin (real i)" by blast
  from toHex_hex2[OF assms(2)] obtain j where j: "j < 256" "toUpperCase (toHex g) = hex2 j"
    "round_clamp g = Fin (real j)" by blast
  from toHex_hex2[OF assms(3)] obtain k where k: "k < 256" "toUpperCase (toHex b) = hex2 k"
    "round_clamp b = Fin (real k)" by blast
  have "rgbToHex r g b
          = CHR ''#'' # toUpperCase (toHex r) @ toUpperCase (toHex g) @ toUpperCase (toHex b)"
    by (simp add: rgbToHex_def toUpperCase_def toUpperCase_char_def)
  with i j k show ?thesis by auto
qed

lemma hexToRgb_hex2:
  assumes "i < 256" "j < 256" "k < 256"
  shows "hexToRgb (CHR ''#'' # hex2 i @ hex2 j @ hex2 k)
           = Inr \<lparr>rgb_r = real i, rgb_g = real j, rgb_b = real k\<rparr>"
proof -
  note p = hex2_props[OF assms(1)] hex2_props[OF assms(2)] hex2_props[OF assms(3)]
  have h: "list_all is_hex_digit (hex2 i @ hex2 j @ hex2 k)"
    using p(2,5,8) by (auto simp: list_all_iff upper_hex_is_hex)
  show ?thesis
    using p(1,4,7) p(3,6,9) h
    by (simp add: hexToRgb_def strip_hash_def expand_shorthand_def Let_def)
qed

lemma is_hex6_upper_hex2:
  assumes "i < 256" "j < 256" "k < 256"
  shows "is_hex6_upper (CHR ''#'' # hex2 i @ hex2 j @ hex2 k)"
  using hex2_props(1,2)[OF assms(1)] hex2_props(1,2)[OF assms(2)] hex2_props(1,2)[OF assms(3)]
  by (simp add: is_hex6_upper_def)

lemma strip_hash_alt: "strip_hash hx = (if take 1 hx = ''#'' then drop 1 hx else hx)"
  by (cases hx) (auto simp: strip_hash_def)

lemma expand_shorthand_length:
  "length (expand_shorthand s) = 6 \<longleftrightarrow> length s = 3 \<or> length s = 6"
  by (auto simp: expand_shorthand_def length_concat comp_def sum_list_triv)

lemma expand_shorthand_digits:
  "list_all is_hex_digit (expand_shorthand s) \<longleftrightarrow> list_all is_hex_digit s"
  by (auto simp: expand_shorthand_def list_all_iff)

lemma hexToRgb_fails_iff:
  "hexToRgb hx = Inl e \<longleftrightarrow> \<not> matches_hex_pattern hx \<and> e = InvalidColorFormat hx"
  by (auto simp: hexToRgb_def matches_hex_pattern_def Let_def strip_hash_alt
      expand_shorthand_length expand_shorthand_digits)

lemma hexToRgb_succeeds_iff: "(\<exists>rgb. hexToRgb hx = Inr rgb) \<longleftrightarrow> matches_hex_pattern hx"
  using hexToRgb_fails_iff[of hx] by (cases "hexToRgb hx") auto

lemma lower_table:
  "\<forall>c \<in> set ''abcdefghijklmnopqrstuvwxyz''. toUpperCase_char c \<noteq> CHR ''#''"
  by code_simp

lemma toUpperCase_char_hash: "toUpperCase_char c = CHR ''#'' \<longleftrightarrow> c = CHR ''#''"
proof (cases "c \<in> set ''abcdefghijklmnopqrstuvwxyz''")
  case True
  with lower_table have "toUpperCase_char c \<noteq> CHR ''#''" by blast
  moreover from True have "c \<noteq> CHR ''#''" by auto
  ultimately show ?thesis by simp
next
  case False
  then show ?thesis by (simp add: toUpperCase_char_def)
qed

lemma hex_digit_table:
  "\<forall>c \<in> set ''0123456789ABCDEFabcdef''.
     is_hex_digit (toUpperCase_char c) \<and> digit_value (toUpperCase_char c) = digit_value c"
  by code_simp

lemma hex_digit_upper:
  assumes "is_hex_digit c"
  shows "is_hex_digit (toUpperCase_char c)"
    and "digit_value (toUpperCase_char c) = digit_value c"
  using assms hex_digit_table unfolding is_hex_digit_def by blast+

lemma parseInt16_upper:
  assumes "list_all is_hex_digit s"
  shows "parseInt16 (toUpperCase s) = parseInt16 s"
proof -
  have "foldl (\<lambda>acc c. 16 * acc + digit_value c) a (map toUpperCase_char s)
        = foldl (\<lambda>acc c. 16 * acc + digit_value c) a s" for a
    using assms by (induction s arbitrary: a) (simp_all add: hex_digit_upper)
  then show ?thesis by (simp add: parseInt16_def toUpperCase_def)
qed

lemma strip_hash_upper: "strip_hash (toUpperCase hx) = toUpperCase (strip_hash hx)"
  by (cases hx) (auto simp: strip_hash_def toUpperCase_def toUpperCase_char_hash)

lemma expand_shorthand_upper:
  "expand_shorthand (toUpperCase s) = toUpperCase (expand_shorthand s)"
  by (simp add: expand_shorthand_def toUpperCase_def map_concat comp_def)

lemma hexToRgb_toUpperCase:
  assumes "hexToRgb hx = Inr rgb"
  shows "hexToRgb (toUpperCase hx) = Inr rgb"
proof -
  define s where "s = expand_shorthand (strip_hash hx)"
  from assms have len: "length s = 6" and dig: "list_all is_hex_digit s"
    and rgb: "rgb = \<lparr>rgb_r = real (parseInt16 (take 2 s)),
                rgb_g = real (parseInt16 (take 2 (drop 2 s))),
                rgb_b = real (parseInt16 (take 2 (drop 4 s)))\<rparr>"
    by (auto simp: hexToRgb_def s_def Let_def split: if_splits)
  have eq: "expand_shorthand (strip_hash (toUpperCase hx)) = toUpperCase s"
    by (simp add: s_def strip_hash_upper expand_shorthand_upper)
  have dig': "list_all is_hex_digit (toUpperCase s)"
    using dig by (auto simp: list_all_iff toUpperCase_def hex_digit_upper)
  have sub: "list_all is_hex_digit (take 2 (drop k s))" for k
    using dig by (auto simp: list_all_iff dest: in_set_takeD in_set_dropD)
  have p: "parseInt16 (take 2 (drop k (toUpperCase s))) = parseInt16 (take 2 (drop k s))" for k
    using parseInt16_upper[OF sub[of k]] by (simp add: toUpperCase_def take_map drop_map)
  have p0: "parseInt16 (take 2 (toUpperCase s)) = parseInt16 (take 2 s)"
    using p[of 0] by simp
  have len': "length (toUpperCase s) = 6"
    using len by (simp add: toUpperCase_def)
  show ?thesis
    unfolding hexToRgb_def eq Let_def rgb p p0 using len' dig' by simp
qed

lemma digit_value_table: "\<forall>c \<in> set ''0123456789ABCDEFabcdef''. digit_value c \<le> 15"
  by code_simp

lemma digit_value_le: "is_hex_digit c \<Longrightarrow> digit_value c \<le> 15"
  using digit_value_table unfolding is_hex_digit_def by blast

lemma parseInt16_pair_le:
  assumes "length t = 2" "list_all is_hex_digit t"
  shows "parseInt16 t \<le> 255"
proof -
  from assms(1) obtain a b where t: "t = [a, b]"
    by (cases t; cases "tl t") auto
  with assms(2) have "digit_value a \<le> 15" "digit_value b \<le> 15"
    by (simp_all add: digit_value_le)
  with t show ?thesis by (simp add: parseInt16_def)
qed

lemma hexToRgb_range:
  assumes "hexToRgb hx = Inr rgb"
  shows "0 \<le> rgb_r rgb \<and> rgb_r rgb \<le> 255 \<and> 0 \<le> rgb_g rgb \<and> rgb_g rgb \<le> 255
       \<and> 0 \<le> rgb_b rgb \<and> rgb_b rgb \<le> 255"
proof -
  define s where "s = expand_shorthand (strip_hash hx)"
  from assms have len: "length s = 6" and dig: "list_all is_hex_digit s"
    and rgb: "rgb = \<lparr>rgb_r = real (parseInt16 (take 2 s)),
                rgb_g = real (parseInt16 (take 2 (drop 2 s))),
                rgb_b = real (parseInt16 (take 2 (drop 4 s)))\<rparr>"
    by (auto simp: hexToRgb_def s_def Let_def split: if_splits)
  have sub: "list_all is_hex_digit (take 2 (drop k s))" for k
    using dig by (auto simp: list_all_iff dest: in_set_takeD in_set_dropD)
  have l: "length (take 2 (drop k s)) = 2" if "k \<le> 4" for k
    using len that by simp
  have "parseInt16 (take 2 s) \<le> 255"
    using parseInt16_pair_le[OF l[of 0] sub[of 0]] by simp
  moreover have "parseInt16 (take 2 (drop 2 s)) \<le> 255"
    using parseInt16_pair_le[OF l[of 2] sub[of 2]] by simp
  moreover have "parseInt16 (take 2 (drop 4 s)) \<le> 255"
    using parseInt16_pair_le[OF l[of 4] sub[of 4]] by simp
  ultimately show ?thesis unfolding rgb by simp
qed

section \<open>The hue and tone classifiers\<close>

lemma lookup_nat: "i < length xs \<Longrightarrow> lookup xs (int i) = Some (xs ! i)"
  by (simp add: lookup_def)

lemma lookup_in_range: "0 \<le> i \<Longrightarrow> i < int (length xs) \<Longrightarrow> lookup xs i = Some (xs ! nat i)"
  by (simp add: lookup_def)

lemma real_mod_range:
  assumes "0 < n"
  shows "0 \<le> real_mod x n" "real_mod x n < n"
proof -
  from floor_divide_lower[OF assms, of x] show "0 \<le> real_mod x n"
    by (simp add: real_mod_def mult.commute)
  from floor_divide_upper[OF assms, of x] show "real_mod x n < n"
    by (simp add: real_mod_def algebra_simps)
qed

lemma js_rem_nonneg: "0 \<le> x \<Longrightarrow> 0 < n \<Longrightarrow> js_rem x n = real_mod x n"
  by (simp add: js_rem_def real_mod_def)

lemma fl_hue_shift:
  assumes "0 \<le> h" "h < 360"
  shows "360 \<le> fl (h + 360)" "fl (h + 360) \<le> 720"
  using fl_range[of 360 "h + 360" 720] assms by simp_all

lemma norm_hue_normalized:
  assumes "0 \<le> h" "h < 360"
  shows "norm_hue h = normalized_hue h"
  using fl_hue_shift(1)[OF assms] by (simp add: norm_hue_def normalized_hue_def js_rem_nonneg)

lemma normalized_hue_range: "0 \<le> normalized_hue h" "normalized_hue h < 360"
  using real_mod_range[of 360 "fl (h + 360)"] by (simp_all add: normalized_hue_def)

lemma normalized_hue_cases:
  assumes "0 \<le> h" "h < 360"
  shows "normalized_hue h = fl (h + 360) - 360 \<or> (fl (h + 360) = 720 \<and> normalized_hue h = 0)"
proof (cases "fl (h + 360) = 720")
  case True
  then show ?thesis by (simp add: normalized_hue_def real_mod_def)
next
  case False
  with fl_hue_shift[OF assms] have r: "360 \<le> fl (h + 360)" "fl (h + 360) < 720" by simp_all
  then have "\<lfloor>fl (h + 360) / 360\<rfloor> = 1" by (simp add: floor_eq_iff)
  then show ?thesis by (simp add: normalized_hue_def real_mod_def)
qed

lemma normalized_hue_exact:
  assumes "0 \<le> h" "h < 360" "fl (h + 360) = h + 360"
  shows "normalized_hue h = h"
  using normalized_hue_cases[OF assms(1,2)] assms(2,3) by auto

lemma hue_shift_error:
  assumes "0 \<le> h" "h < 360"
  shows "\<bar>fl (h + 360) - (h + 360)\<bar> \<le> 1 / 2 ^ 44"
proof -
  have x: "0 < h + 360" using assms by simp
  have "2 powi (expo (h + 360)) \<le> h + 360" by (rule expo_bounds(1)[OF x])
  also have "\<dots> < 2 powi 10" using assms by simp
  finally have "expo (h + 360) < 10" by (rule pow2_less_imp)
  then have "ulp_exp (h + 360) \<le> - 43" using x by (simp add: ulp_exp_def)
  then have "(2::real) powi ulp_exp (h + 360) \<le> 2 powi (- 43)" by (rule pow2_mono)
  then have "(2::real) powi ulp_exp (h + 360) / 2 \<le> 2 powi (- 43) / 2" by simp
  also have "(2::real) powi (- 43) / 2 = 1 / 2 ^ 44" by (simp add: power_int_minus divide_simps)
  finally show ?thesis using fl_error[of "h + 360"] by linarith
qed

lemma band_index_range:
  assumes "a \<le> h" "a < b" "0 < n"
  shows "0 \<le> band_index h a b n" "band_index h a b n < int n"
proof -
  have "0 \<le> fl (h - a)" "0 \<le> fl (b - a)" using assms by (simp_all add: fl_nonneg)
  then have "0 \<le> fl (h - a) / fl (b - a)" by (rule divide_nonneg_nonneg)
  then have "0 \<le> fl (fl (h - a) / fl (b - a))" by (rule fl_nonneg)
  then have "0 \<le> fl (fl (h - a) / fl (b - a)) * real n" by simp
  then have "0 \<le> fl (fl (fl (h - a) / fl (b - a)) * real n)" by (rule fl_nonneg)
  then have "0 \<le> \<lfloor>fl (fl (fl (h - a) / fl (b - a)) * real n)\<rfloor>" by simp
  then show "0 \<le> band_index h a b n" using assms(3) by (simp add: band_index_def)
  show "band_index h a b n < int n" by (simp add: band_index_def)
qed

lemma choose_name_index:
  assumes "a \<le> h" "a < b" "names \<noteq> []"
  shows "choose_name h a b names = names ! nat (band_index h a b (length names))"
proof -
  have n: "0 < length names" using assms(3) by simp
  note r = band_index_range[OF assms(1,2) n]
  show ?thesis
    using lookup_in_range[OF r]
    by (simp add: choose_name_def Let_def band_index_def)
qed

lemma getHueName_band:
  assumes "(a, b, ns) \<in> set hue_bands" "a \<le> norm_hue h" "norm_hue h < b" "\<not> s < 8"
  shows "getHueName h s = ns ! nat (band_index (norm_hue h) a b (length ns))"
proof -
  have ab: "a < b" "ns \<noteq> []" using assms(1) by (auto simp: hue_bands_def)
  have c: "choose_name (norm_hue h) a b ns = ns ! nat (band_index (norm_hue h) a b (length ns))"
    using choose_name_index[OF assms(2) ab] .
  have indigo: "[''Indigo''] ! nat (band_index (norm_hue h) 240 270 (Suc 0)) = ''Indigo''"
    by (simp add: band_index_def)
  have g: "getHueName h s = (if a = 240 then ''Indigo'' else choose_name (norm_hue h) a b ns)"
    using assms(1) unfolding hue_bands_def set_simps insert_iff empty_iff prod.inject
    apply (elim disjE conjE)
    using assms(2,3,4)
    by (simp_all add: getHueName_def Let_def)
  show ?thesis
  proof (cases "a = 240")
    case True
    with assms(1) have "b = 270" "ns = [''Indigo'']" by (auto simp: hue_bands_def)
    with True g indigo show ?thesis by simp
  next
    case False
    with g c show ?thesis by simp
  qed
qed

lemma band_exists:
  assumes "0 \<le> h" "h < 360"
  obtains i where "i < length hue_bands" "fst (hue_bands ! i) \<le> h"
    "h < fst (snd (hue_bands ! i))"
proof -
  define i :: nat where
    "i = (if h < 15 then 0 else if h < 35 then 1 else if h < 50 then 2 else if h < 70 then 3 else if h < 85 then 4 else if h < 155 then 5 else if h < 180 then 6 else if h < 200 then 7 else if h < 240 then 8 else if h < 270 then 9 else if h < 295 then 10 else if h < 320 then 11 else if h < 335 then 12 else if h < 350 then 13 else 14)"
  have 1: "i < length hue_bands" by (simp add: i_def hue_bands_def)
  have 2: "fst (hue_bands ! i) \<le> h" using assms(1) by (simp add: i_def hue_bands_def)
  have 3: "h < fst (snd (hue_bands ! i))" using assms(2) by (simp add: i_def hue_bands_def)
  from 1 2 3 show thesis by (rule that)
qed

lemma getHueName_in_band:
  assumes "0 \<le> h" "h < 360" "\<not> s < 8"
  shows "\<exists>a b ns. (a, b, ns) \<in> set hue_bands
          \<and> a \<le> normalized_hue h \<and> normalized_hue h < b
          \<and> 0 \<le> band_index (normalized_hue h) a b (length ns)
          \<and> band_index (normalized_hue h) a b (length ns) < int (length ns)
          \<and> getHueName h s = ns ! nat (band_index (normalized_hue h) a b (length ns))"
proof -
  let ?h = "normalized_hue h"
  note nh = norm_hue_normalized[OF assms(1,2)]
  from band_exists[OF normalized_hue_range[of h]] obtain i where i: "i < length hue_bands"
    "fst (hue_bands ! i) \<le> ?h" "?h < fst (snd (hue_bands ! i))" .
  obtain a b ns where abn: "hue_bands ! i = (a, b, ns)" by (cases "hue_bands ! i") auto
  with i have m: "(a, b, ns) \<in> set hue_bands" by (metis nth_mem)
  from i abn have ah: "a \<le> ?h" "?h < b" by simp_all
  have ne: "0 < length ns" using m by (auto simp: hue_bands_def)
  have "a < b" using ah by simp
  note r = band_index_range[OF ah(1) this ne]
  from getHueName_band[OF m, of h s] ah assms(3) nh
  have "getHueName h s = ns ! nat (band_index ?h a b (length ns))" by simp
  with m ah r show ?thesis by blast
qed

lemma hue_vocabulary_nonempty: "[] \<notin> set hue_vocabulary"
  by (simp add: hue_vocabulary_def hue_bands_def)

lemma band_names_in_vocabulary:
  assumes "(a, b, ns) \<in> set hue_bands" "i < length ns"
  shows "ns ! i \<in> set hue_vocabulary"
proof -
  have "ns ! i \<in> set ns" using assms(2) by simp
  with assms(1) show ?thesis by (force simp: hue_vocabulary_def)
qed

text \<open>
  C5, amended: for a hue \<open>h\<close> in \<open>[0, 360)\<close> and a saturation in \<open>[0, 100]\<close>, a saturation
  below 8 gives \<open>Neutral\<close> whatever the hue; otherwise the result is the name, in the band
  of the table whose interval \<open>[a, b)\<close> contains the normalized hue \<open>h'\<close>, at index
  \<open>min (N - 1) (floor (((h' - a) / (b - a)) * N))\<close>, where \<open>N\<close> is the number of names of
  the band. The normalized hue is \<open>(h + 360) mod 360\<close> with the sum rounded to a double:
  it lies in \<open>[0, 360)\<close>, it is \<open>h\<close> when \<open>h + 360\<close> is a double, and otherwise the
  rounded sum, which is within \<open>2 ^ - 44\<close> of \<open>h + 360\<close>, less 360, or 0 when the sum
  rounds to 720; so it can lie in the band next to that of \<open>h\<close>. The result is a
  non-empty string of the fixed vocabulary.
\<close>

theorem getHueName_classifies:
  assumes "0 \<le> h" "h < 360" "0 \<le> s" "s \<le> 100"
  shows "(s < 8 \<longrightarrow> getHueName h s = ''Neutral'')
       \<and> (\<not> s < 8 \<longrightarrow>
            (\<exists>a b ns. (a, b, ns) \<in> set hue_bands
               \<and> a \<le> normalized_hue h \<and> normalized_hue h < b
               \<and> 0 \<le> band_index (normalized_hue h) a b (length ns)
               \<and> getHueName h s = ns ! nat (band_index (normalized_hue h) a b (length ns))))
       \<and> 0 \<le> normalized_hue h \<and> normalized_hue h < 360
       \<and> (fl (h + 360) = h + 360 \<longrightarrow> normalized_hue h = h)
       \<and> (normalized_hue h = fl (h + 360) - 360
            \<or> (fl (h + 360) = 720 \<and> normalized_hue h = 0))
       \<and> \<bar>fl (h + 360) - (h + 360)\<bar> \<le> 1 / 2 ^ 44
       \<and> getHueName h s \<noteq> [] \<and> getHueName h s \<in> set hue_vocabulary"
proof -
  have v: "getHueName h s \<noteq> [] \<and> getHueName h s \<in> set hue_vocabulary
      \<and> (s < 8 \<longrightarrow> getHueName h s = ''Neutral'')
      \<and> (\<not> s < 8 \<longrightarrow>
            (\<exists>a b ns. (a, b, ns) \<in> set hue_bands
               \<and> a \<le> normalized_hue h \<and> normalized_hue h < b
               \<and> 0 \<le> band_index (normalized_hue h) a b (length ns)
               \<and> getHueName h s = ns ! nat (band_index (normalized_hue h) a b (length ns))))"
  proof (cases "s < 8")
    case True
    then show ?thesis by (simp add: getHueName_def hue_vocabulary_def)
  next
    case False
    let ?h = "normalized_hue h"
    from getHueName_in_band[OF assms(1,2) False] obtain a b ns where
      b: "(a, b, ns) \<in> set hue_bands" "a \<le> ?h" "?h < b" "0 \<le> band_index ?h a b (length ns)"
        "band_index ?h a b (length ns) < int (length ns)"
        "getHueName h s = ns ! nat (band_index ?h a b (length ns))" by blast
    have "nat (band_index ?h a b (length ns)) < length ns" using b(4,5) by linarith
    from band_names_in_vocabulary[OF b(1) this] b(6)
    have v: "getHueName h s \<in> set hue_vocabulary" by simp
    with hue_vocabulary_nonempty have "getHueName h s \<noteq> []" by metis
    with v b False show ?thesis by blast
  qed
  have e: "fl (h + 360) = h + 360 \<longrightarrow> normalized_hue h = h"
    using normalized_hue_exact[OF assms(1,2)] by simp
  from v normalized_hue_range[of h] e normalized_hue_cases[OF assms(1,2)]
    hue_shift_error[OF assms(1,2)]
  show ?thesis by simp
qed




lemma getToneName_bucket: "getToneName s l h = deterministicPick (tone_bucket s l) h s l"
  by (simp add: getToneName_def tone_bucket_def)

lemma tone_bucket_mem: "tone_bucket s l \<in> set tone_buckets_all"
  by (simp add: tone_bucket_def tone_buckets_all_def)

lemma tone_bucket_nonempty: "tone_bucket s l \<noteq> []"
  using tone_bucket_mem[of s l]
  by (auto simp: tone_buckets_all_def veryLight_def lightSoft_def light_def bright_def muted_def
      medium_def vivid_def dim_def dark_def rich_def charcoal_def deep_def inky_def)


section \<open>The classification pipeline\<close>

lemma filter_dropWhile_neg: "filter (\<lambda>c. \<not> P c) (dropWhile P cs) = filter (\<lambda>c. \<not> P c) cs"
  by (induction cs) simp_all

lemma replace_runs_filter: "replace_runs str = remove_spaces_hyphens str"
  unfolding remove_spaces_hyphens_def
  by (induction str rule: replace_runs.induct) (simp_all add: filter_dropWhile_neg)

lemma line_terminator_is_space: "(of_char c :: nat) \<in> {10, 13} \<Longrightarrow> is_space_or_hyphen c"
  by (auto simp: is_space_or_hyphen_def)

lemma replace_first_lower_filtered:
  "replace_first_lower (remove_spaces_hyphens str) = lower_first (remove_spaces_hyphens str)"
proof (cases "remove_spaces_hyphens str")
  case Nil
  then show ?thesis by (simp add: replace_first_lower_def lower_first_def)
next
  case (Cons c cs)
  then have "c \<in> set (remove_spaces_hyphens str)" by simp
  then have "\<not> is_space_or_hyphen c" by (simp add: remove_spaces_hyphens_def)
  with line_terminator_is_space have "(of_char c :: nat) \<notin> {10, 13}" by blast
  with Cons show ?thesis by (simp add: replace_first_lower_def lower_first_def)
qed

lemma lookup_Some_mem: "lookup xs i = Some x \<Longrightarrow> x \<in> set xs"
  by (auto simp: lookup_def split: if_splits)

lemma lookup_0_nonempty: "xs \<noteq> [] \<Longrightarrow> lookup xs 0 = Some (hd xs)"
  by (cases xs) (simp_all add: lookup_def)

lemma deterministicPick_mem:
  assumes "list \<noteq> []"
  shows "deterministicPick list h s l \<in> set list"
  using assms lookup_0_nonempty[OF assms]
  by (auto simp: deterministicPick_def Let_def split: option.splits dest: lookup_Some_mem)

lemma choose_name_mem:
  assumes "names \<noteq> []"
  shows "choose_name h a b names \<in> set names"
  using assms lookup_0_nonempty[OF assms]
  by (auto simp: choose_name_def Let_def split: option.splits dest: lookup_Some_mem)

lemma getToneName_vocabulary: "getToneName s l h \<in> set tone_vocabulary"
proof -
  have "getToneName s l h \<in> set (tone_bucket s l)"
    using deterministicPick_mem[OF tone_bucket_nonempty] by (simp add: getToneName_bucket)
  with tone_bucket_mem[of s l] show ?thesis
    unfolding tone_vocabulary_def by auto
qed

lemma hue_names_in_vocabulary:
  "set [''Scarlet'', ''Red'', ''Crimson'', ''Tangerine'', ''Orange'', ''Amber'', ''Honey'',
        ''Lemon'', ''Yellow'', ''Gold'', ''Lime'', ''Chartreuse'', ''Mint'', ''Green'',
        ''Emerald'', ''Teal'', ''Aqua'', ''Cyan'', ''Sky'', ''Azure'', ''Blue'', ''Cobalt'',
        ''Indigo'', ''Violet'', ''Lavender'', ''Purple'', ''Grape'', ''Magenta'', ''Fuchsia'',
        ''Rose'', ''Cerise'', ''Rosewood'', ''Neutral''] \<subseteq> set hue_vocabulary"
  by (simp add: hue_vocabulary_def hue_bands_def)

lemma choose_name_vocabulary:
  assumes "set ns \<subseteq> set hue_vocabulary" "ns \<noteq> []"
  shows "choose_name h a b ns \<in> set hue_vocabulary"
  using choose_name_mem[OF assms(2)] assms(1) by blast

lemma getHueName_vocabulary: "getHueName h s \<in> set hue_vocabulary"
  using hue_names_in_vocabulary
  by (simp add: getHueName_def Let_def choose_name_vocabulary)

lemma vocabulary_words:
  "\<forall>w \<in> set (tone_vocabulary @ hue_vocabulary). w \<noteq> [] \<and> remove_spaces_hyphens w = w"
  unfolding tone_vocabulary_def tone_buckets_all_def hue_vocabulary_def hue_bands_def
     veryLight_def lightSoft_def light_def bright_def muted_def
      medium_def vivid_def dim_def dark_def rich_def charcoal_def deep_def inky_def
  by code_simp

lemma classifyHexColor_fields:
  assumes "classifyHexColor hx = Inr c"
  obtains rgb where "hexToRgb hx = Inr rgb"
    and "hsl c = rgbToHsl (rgb_r rgb) (rgb_g rgb) (rgb_b rgb)"
    and "hueGroup c = getHueName (hsl_h (hsl c)) (hsl_s (hsl c))"
    and "tone c = getToneName (hsl_s (hsl c)) (hsl_l (hsl c)) (hsl_h (hsl c))"
    and "fullName c = (if hueGroup c = ''Neutral'' then tone c @ '' Neutral''
                       else tone c @ '' '' @ hueGroup c)"
    and "tokenName c = replace_first_lower (replace_runs (fullName c))"
proof (cases "hexToRgb hx")
  case (Inl e)
  with assms show ?thesis by (simp add: classifyHexColor_def)
next
  case (Inr rgb)
  with assms have "c = (let hsl' = rgbToHsl (rgb_r rgb) (rgb_g rgb) (rgb_b rgb);
              hueGroup' = getHueName (hsl_h hsl') (hsl_s hsl');
              tone' = getToneName (hsl_s hsl') (hsl_l hsl') (hsl_h hsl');
              fullName' = (if hueGroup' = ''Neutral'' then tone' @ '' Neutral''
                           else tone' @ '' '' @ hueGroup');
              tokenName' = replace_first_lower (replace_runs fullName')
          in \<lparr>fullName = fullName', tokenName = tokenName', tone = tone',
                   hueGroup = hueGroup', hsl = hsl'\<rparr>)"
    by (simp add: classifyHexColor_def Let_def)
  then show ?thesis using Inr by (intro that[of rgb]) (simp_all add: Let_def)
qed

lemma classifyHexColor_succeeds:
  assumes "hexToRgb hx = Inr rgb"
  shows "\<exists>c. classifyHexColor hx = Inr c"
  using assms by (simp add: classifyHexColor_def Let_def)

lemma classifyHexColor_fails:
  "classifyHexColor hx = Inl e \<longleftrightarrow> hexToRgb hx = Inl e"
  by (cases "hexToRgb hx") (simp_all add: classifyHexColor_def Let_def)

lemma classifyHexColor_names_of:
  assumes "classifyHexColor hx = Inr c"
  shows "(hueGroup c = ''Neutral'' \<longrightarrow> fullName c = tone c @ '' Neutral'')
       \<and> (hueGroup c \<noteq> ''Neutral'' \<longrightarrow> fullName c = tone c @ '' '' @ hueGroup c)
       \<and> tokenName c = lower_first (remove_spaces_hyphens (fullName c))
       \<and> tokenName c = lower_first (tone c) @ hueGroup c"
proof -
  from classifyHexColor_fields[OF assms] obtain rgb where
    "hexToRgb hx = Inr rgb" and hg: "hueGroup c = getHueName (hsl_h (hsl c)) (hsl_s (hsl c))"
    and tn: "tone c = getToneName (hsl_s (hsl c)) (hsl_l (hsl c)) (hsl_h (hsl c))"
    and fn: "fullName c = (if hueGroup c = ''Neutral'' then tone c @ '' Neutral''
                       else tone c @ '' '' @ hueGroup c)"
    and tk: "tokenName c = replace_first_lower (replace_runs (fullName c))" by metis
  have tv: "tone c \<in> set (tone_vocabulary @ hue_vocabulary)"
    using getToneName_vocabulary tn by simp
  have hv: "hueGroup c \<in> set (tone_vocabulary @ hue_vocabulary)"
    using getHueName_vocabulary hg by simp
  from tv hv vocabulary_words have w: "tone c \<noteq> []" "remove_spaces_hyphens (tone c) = tone c"
    "remove_spaces_hyphens (hueGroup c) = hueGroup c" by blast+
  have full: "fullName c = tone c @ '' '' @ hueGroup c" using fn by simp
  have sp: "remove_spaces_hyphens '' '' = []"
    by (simp add: remove_spaces_hyphens_def is_space_or_hyphen_def)
  have "remove_spaces_hyphens (fullName c)
          = remove_spaces_hyphens (tone c) @ remove_spaces_hyphens '' ''
            @ remove_spaces_hyphens (hueGroup c)"
    unfolding full remove_spaces_hyphens_def by simp
  then have r: "remove_spaces_hyphens (fullName c) = tone c @ hueGroup c"
    using w sp by simp
  have t1: "tokenName c = lower_first (remove_spaces_hyphens (fullName c))"
    using tk by (simp add: replace_runs_filter replace_first_lower_filtered)
  have "lower_first (tone c @ hueGroup c) = lower_first (tone c) @ hueGroup c"
    using w(1) by (cases "tone c") (simp_all add: lower_first_def)
  with t1 r have t2: "tokenName c = lower_first (tone c) @ hueGroup c" by simp
  from fn t1 t2 show ?thesis by simp
qed

text \<open>
  C8: for every valid hex input, \<open>fullName\<close> is the tone, a space and \<open>Neutral\<close> when the
  hue group is \<open>Neutral\<close>, and the tone, a space and the hue group otherwise;
  \<open>tokenName\<close> is \<open>fullName\<close> with all white space and hyphens removed and only its
  first character in lower case, that is the tone with a lower-case initial followed by
  the hue group unchanged.
\<close>

theorem classifyHexColor_names:
  assumes "matches_hex_pattern hx"
  shows "\<exists>c. classifyHexColor hx = Inr c
       \<and> (hueGroup c = ''Neutral'' \<longrightarrow> fullName c = tone c @ '' Neutral'')
       \<and> (hueGroup c \<noteq> ''Neutral'' \<longrightarrow> fullName c = tone c @ '' '' @ hueGroup c)
       \<and> tokenName c = lower_first (remove_spaces_hyphens (fullName c))
       \<and> tokenName c = lower_first (tone c) @ hueGroup c"
proof -
  from assms obtain rgb where "hexToRgb hx = Inr rgb"
    using hexToRgb_succeeds_iff by blast
  from classifyHexColor_succeeds[OF this] obtain c where c: "classifyHexColor hx = Inr c"
    by blast
  show ?thesis
    by (rule exI[of _ c]) (rule conjI[OF c classifyHexColor_names_of[OF c]])
qed

section \<open>The palette synthesizer\<close>

lemma length_tables: "length stepValues = 10" "length lightnessSteps = 10"
  by (simp_all add: stepValues_def lightnessSteps_def)

lemma lightness_int:
  assumes "j < length lightnessSteps"
  obtains k where "lightnessSteps ! j = of_int k" "1 \<le> k" "k \<le> 100"
proof -
  have "\<forall>t \<in> set lightnessSteps. t = of_int \<lfloor>t\<rfloor> \<and> 1 \<le> \<lfloor>t\<rfloor> \<and> \<lfloor>t\<rfloor> \<le> 100"
    by (simp add: lightnessSteps_def)
  with nth_mem[OF assms] show thesis by (intro that[of "\<lfloor>lightnessSteps ! j\<rfloor>"]) simp_all
qed

text \<open>The rounded differences computed by the scan compare as the exact ones.\<close>

lemma closest_cmp:
  assumes "fl l = l" "0 \<le> l" "l \<le> 100"
    and "i < length lightnessSteps" "c < length lightnessSteps"
  shows "\<bar>fl (l - lightnessSteps ! i)\<bar> < \<bar>fl (l - lightnessSteps ! c)\<bar>
         \<longleftrightarrow> \<bar>l - lightnessSteps ! i\<bar> < \<bar>l - lightnessSteps ! c\<bar>"
proof -
  from lightness_int[OF assms(4)] obtain ki where
    ki: "lightnessSteps ! i = of_int ki" "1 \<le> ki" "ki \<le> 100" .
  from lightness_int[OF assms(5)] obtain kc where
    kc: "lightnessSteps ! c = of_int kc" "1 \<le> kc" "kc \<le> 100" .
  show ?thesis
    unfolding ki(1) kc(1) by (rule fl_diff_less_iff[OF assms(1,2,3) kc(2,3) ki(2,3)])
qed

lemma closest_loop_invariant:
  assumes "fl l = l" "0 \<le> l" "l \<le> 100"
    and "i \<le> length lightnessSteps" "c < i" "m = \<bar>fl (l - lightnessSteps ! c)\<bar>"
    and "\<forall>j<i. \<bar>l - lightnessSteps ! c\<bar> \<le> \<bar>l - lightnessSteps ! j\<bar>"
    and "\<forall>j<c. \<bar>l - lightnessSteps ! c\<bar> < \<bar>l - lightnessSteps ! j\<bar>"
  shows "closest_first lightnessSteps l (closest_loop l i c m)"
  using assms
proof (induction l i c m rule: closest_loop.induct)
  case (1 l i c m)
  note lp = "1.prems"(1,2,3)
  show ?case
  proof (cases "i < length lightnessSteps")
    case False
    with "1.prems" have i: "i = length lightnessSteps" by simp
    have "closest_loop l i c m = c" using False by (simp add: closest_loop.simps)
    with "1.prems" i show ?thesis by (simp add: closest_first_def)
  next
    case True
    then have lk: "lookup lightnessSteps (int i) = Some (lightnessSteps ! i)"
      by (rule lookup_nat)
    have c: "c < length lightnessSteps" using "1.prems"(5) True by simp
    let ?d = "\<bar>fl (l - lightnessSteps ! i)\<bar>"
    let ?e = "\<bar>l - lightnessSteps ! i\<bar>"
    let ?ec = "\<bar>l - lightnessSteps ! c\<bar>"
    have cmp: "?d < m \<longleftrightarrow> ?e < ?ec"
      unfolding "1.prems"(6) by (rule closest_cmp[OF lp True c])
    show ?thesis
    proof (cases "?d < m")
      case less: True
      with cmp have e: "?e < ?ec" by simp
      have eq: "closest_loop l i c m = closest_loop l (i + 1) i ?d"
        using True lk less by (subst closest_loop.simps) (simp add: Let_def)
      have a: "\<forall>j<i + 1. ?e \<le> \<bar>l - lightnessSteps ! j\<bar>"
      proof (intro allI impI)
        fix j assume "j < i + 1"
        then consider "j < i" | "j = i" by linarith
        then show "?e \<le> \<bar>l - lightnessSteps ! j\<bar>"
          using "1.prems"(7) e by cases force+
      qed
      have b: "\<forall>j<i. ?e < \<bar>l - lightnessSteps ! j\<bar>"
        using "1.prems"(7) e by force
      have "closest_first lightnessSteps l (closest_loop l (i + 1) i ?d)"
        using "1.IH"(2)[OF True lk refl less lp _ _ refl a b] True by simp
      with eq show ?thesis by simp
    next
      case geq: False
      with cmp have e: "\<not> ?e < ?ec" by simp
      have eq: "closest_loop l i c m = closest_loop l (i + 1) c m"
        using True lk geq by (subst closest_loop.simps) (simp add: Let_def)
      have a: "\<forall>j<i + 1. ?ec \<le> \<bar>l - lightnessSteps ! j\<bar>"
      proof (intro allI impI)
        fix j assume "j < i + 1"
        then consider "j < i" | "j = i" by linarith
        then show "?ec \<le> \<bar>l - lightnessSteps ! j\<bar>"
          using "1.prems"(7) e by cases force+
      qed
      have "closest_first lightnessSteps l (closest_loop l (i + 1) c m)"
        using "1.IH"(3)[OF True lk refl geq lp _ _ "1.prems"(6) a "1.prems"(8)] True "1.prems"(5)
        by simp
      with eq show ?thesis by simp
    qed
  qed
qed

lemma closest_loop_start:
  assumes "fl l = l" "0 \<le> l" "l \<le> 100"
  shows "closest_first lightnessSteps l (closest_loop l 1 0 \<bar>fl (l - lightnessSteps ! 0)\<bar>)"
  by (rule closest_loop_invariant[OF assms]) (simp_all add: length_tables)

text \<open>The lightness computed by \<open>rgbToHsl\<close> from channels between 0 and 255 is a
  double between 0 and 100.\<close>

lemma fl_unit:
  assumes "0 \<le> x" "x \<le> 1"
  shows "0 \<le> fl x" "fl x \<le> 1"
  using fl_range[of 0 x 1] assms by simp_all

lemma rgbToHsl_lightness:
  assumes "0 \<le> r" "r \<le> 255" "0 \<le> g" "g \<le> 255" "0 \<le> b" "b \<le> 255"
  shows "fl (hsl_l (rgbToHsl r g b)) = hsl_l (rgbToHsl r g b)"
    and "0 \<le> hsl_l (rgbToHsl r g b)" and "hsl_l (rgbToHsl r g b) \<le> 100"
proof -
  define mx where "mx = max (max (fl (r / 255)) (fl (g / 255))) (fl (b / 255))"
  define mn where "mn = min (min (fl (r / 255)) (fl (g / 255))) (fl (b / 255))"
  have l: "hsl_l (rgbToHsl r g b) = fl (fl (fl (mx + mn) / 2) * 100)"
    by (simp add: rgbToHsl_def Let_def mx_def mn_def)
  have c: "0 \<le> fl (r / 255)" "fl (r / 255) \<le> 1" "0 \<le> fl (g / 255)" "fl (g / 255) \<le> 1"
    "0 \<le> fl (b / 255)" "fl (b / 255) \<le> 1"
    using assms by (simp_all add: fl_unit)
  then have m: "0 \<le> mx" "mx \<le> 1" "0 \<le> mn" "mn \<le> 1"
    by (simp_all add: mx_def mn_def max_def min_def)
  have s: "0 \<le> fl (mx + mn)" "fl (mx + mn) \<le> 2"
    using fl_range[of 0 "mx + mn" 2] m by simp_all
  then have h: "0 \<le> fl (fl (mx + mn) / 2)" "fl (fl (mx + mn) / 2) \<le> 1"
    by (simp_all add: fl_unit)
  show "fl (hsl_l (rgbToHsl r g b)) = hsl_l (rgbToHsl r g b)"
    unfolding l by (rule fl_idem)
  show "0 \<le> hsl_l (rgbToHsl r g b)" and "hsl_l (rgbToHsl r g b) \<le> 100"
    unfolding l using fl_range[of 0 "fl (fl (mx + mn) / 2) * 100" 100] h by simp_all
qed

lemma getLuminanceHex_eq:
  "getLuminanceHex a = (case hexToRgb a of Inl e \<Rightarrow> Inl e | Inr rgb \<Rightarrow> Inr (luminance rgb))"
  unfolding getLuminanceHex_def luminance_def by (rule refl)

lemma getContrastRatio_eq:
  assumes "hexToRgb a = Inr ra" "hexToRgb b = Inr rb"
  shows "getContrastRatio a b = Inr (contrast (luminance ra) (luminance rb))"
  using assms by (simp add: getContrastRatio_def getLuminanceHex_eq contrast_def Let_def)

lemma hexToRgb_white: "hexToRgb ''#FFFFFF'' = Inr \<lparr>rgb_r = 255, rgb_g = 255, rgb_b = 255\<rparr>"
  by code_simp

lemma hexToRgb_dark: "hexToRgb ''#0A0A0A'' = Inr \<lparr>rgb_r = 10, rgb_g = 10, rgb_b = 10\<rparr>"
  by code_simp

lemma make_step_eq:
  assumes "hexToRgb (step_hex hx base k i sl) = Inr rgb"
  shows "make_step hx base k i sv sl =
     Inr \<lparr>step = sv, hex = step_hex hx base k i sl,
          contrastWhite = contrast (luminance rgb) (luminance white),
          contrastDark = contrast (luminance rgb) (luminance near_black),
          wcagWhite = compliance (contrast (luminance rgb) (luminance white)),
          wcagDark = compliance (contrast (luminance rgb) (luminance near_black)),
          isChosenColor = (i = k)\<rparr>"
  using getContrastRatio_eq[OF assms hexToRgb_white] getContrastRatio_eq[OF assms hexToRgb_dark]
  by (simp add: make_step_def Let_def white_def near_black_def)

lemma hslToHex_shape:
  "\<exists>i j k. i < 256 \<and> j < 256 \<and> k < 256 \<and> hslToHex h s l = CHR ''#'' # hex2 i @ hex2 j @ hex2 k"
  using rgbToHex_shape[of "Fin (rgb_r (hslToRgb h s l))" "Fin (rgb_g (hslToRgb h s l))"
      "Fin (rgb_b (hslToRgb h s l))"]
  by (auto simp: hslToHex_def Let_def)

lemma hslToHex_valid: "\<exists>rgb. hexToRgb (hslToHex h s l) = Inr rgb"
  using hslToHex_shape[of h s l] hexToRgb_hex2 by metis

lemma hslToHex_format: "is_hex6_upper (hslToHex h s l)"
  using hslToHex_shape[of h s l] is_hex6_upper_hex2 by metis

lemma step_hex_valid:
  assumes "hexToRgb hx = Inr rgb"
  shows "\<exists>rgb'. hexToRgb (step_hex hx base k i sl) = Inr rgb'"
  using hexToRgb_toUpperCase[OF assms] hslToHex_valid
  by (simp add: step_hex_def Let_def)

lemma steps_loop_all:
  assumes "\<forall>j. i \<le> j \<and> j < length stepValues \<longrightarrow>
             make_step hx base k j (stepValues ! j) (lightnessSteps ! j) = Inr (f j)"
    and "i \<le> length stepValues"
  shows "steps_loop hx base k i acc = Inr (acc @ map f [i..<length stepValues])"
  using assms
proof (induction "length stepValues - i" arbitrary: i acc)
  case 0
  then have "i = length stepValues" by simp
  then show ?case by (simp add: steps_loop.simps)
next
  case (Suc n)
  then have i: "i < length stepValues" by simp
  then have i': "i < length lightnessSteps" by (simp add: length_tables)
  have m: "make_step hx base k i (stepValues ! i) (lightnessSteps ! i) = Inr (f i)"
    using Suc.prems(1) i by simp
  have "steps_loop hx base k i acc = steps_loop hx base k (i + 1) (acc @ [f i])"
    using i lookup_nat[OF i] lookup_nat[OF i'] m by (subst steps_loop.simps) simp
  also have "\<dots> = Inr ((acc @ [f i]) @ map f [i + 1..<length stepValues])"
    using Suc.hyps(1)[of "i + 1" "acc @ [f i]"] Suc.hyps(2) Suc.prems(1) i by simp
  also have "(acc @ [f i]) @ map f [i + 1..<length stepValues]
               = acc @ map f [i..<length stepValues]"
    using i by (simp add: upt_conv_Cons)
  finally show ?case .
qed

lemma classifyHexColor_hsl:
  assumes "hexToRgb hx = Inr rgb"
  shows "\<exists>cls. classifyHexColor hx = Inr cls
           \<and> hsl cls = rgbToHsl (rgb_r rgb) (rgb_g rgb) (rgb_b rgb)"
  using assms by (simp add: classifyHexColor_def Let_def)

lemma lightness_of_hex:
  assumes "hexToRgb hx = Inr rgb"
  shows "fl (hsl_l (rgbToHsl (rgb_r rgb) (rgb_g rgb) (rgb_b rgb)))
           = hsl_l (rgbToHsl (rgb_r rgb) (rgb_g rgb) (rgb_b rgb))"
    and "0 \<le> hsl_l (rgbToHsl (rgb_r rgb) (rgb_g rgb) (rgb_b rgb))"
    and "hsl_l (rgbToHsl (rgb_r rgb) (rgb_g rgb) (rgb_b rgb)) \<le> 100"
  using hexToRgb_range[OF assms] by (simp_all add: rgbToHsl_lightness)

lemma palette_structure:
  assumes "hexToRgb hx = Inr rgb"
  defines "base \<equiv> rgbToHsl (rgb_r rgb) (rgb_g rgb) (rgb_b rgb)"
  defines "k \<equiv> closest_loop (hsl_l base) 1 0 \<bar>fl (hsl_l base - lightnessSteps ! 0)\<bar>"
  shows "\<exists>p. generateColorPalette hx = Inr p
           \<and> classifyHexColor hx = Inr (classification p)
           \<and> hsl (classification p) = base
           \<and> chosenStep p = stepValues ! k
           \<and> length (steps p) = 10
           \<and> (\<forall>i<10. \<exists>rgbi.
                 hexToRgb (step_hex hx base k i (lightnessSteps ! i)) = Inr rgbi
                 \<and> steps p ! i =
                     \<lparr>step = stepValues ! i,
                      hex = step_hex hx base k i (lightnessSteps ! i),
                      contrastWhite = contrast (luminance rgbi) (luminance white),
                      contrastDark = contrast (luminance rgbi) (luminance near_black),
                      wcagWhite = compliance (contrast (luminance rgbi) (luminance white)),
                      wcagDark = compliance (contrast (luminance rgbi) (luminance near_black)),
                      isChosenColor = (i = k)\<rparr>)"
proof -
  from classifyHexColor_hsl[OF assms(1)] obtain cls where
    cls: "classifyHexColor hx = Inr cls" and h: "hsl cls = base"
    unfolding base_def by blast
  define f where "f j = projr (make_step hx base k j (stepValues ! j) (lightnessSteps ! j))" for j
  have mk: "\<exists>rgbi. hexToRgb (step_hex hx base k j (lightnessSteps ! j)) = Inr rgbi
          \<and> make_step hx base k j (stepValues ! j) (lightnessSteps ! j) = Inr (f j)
          \<and> f j = \<lparr>step = stepValues ! j,
                      hex = step_hex hx base k j (lightnessSteps ! j),
                      contrastWhite = contrast (luminance rgbi) (luminance white),
                      contrastDark = contrast (luminance rgbi) (luminance near_black),
                      wcagWhite = compliance (contrast (luminance rgbi) (luminance white)),
                      wcagDark = compliance (contrast (luminance rgbi) (luminance near_black)),
                      isChosenColor = (j = k)\<rparr>" for j
  proof -
    from step_hex_valid[OF assms(1)] obtain rgbi where
      r: "hexToRgb (step_hex hx base k j (lightnessSteps ! j)) = Inr rgbi" by blast
    from make_step_eq[OF r, of "stepValues ! j"] r show ?thesis
      by (intro exI[of _ rgbi]) (simp add: f_def)
  qed
  have mk2: "make_step hx base k j (stepValues ! j) (lightnessSteps ! j) = Inr (f j)" for j
    using mk[of j] by blast
  have loop: "steps_loop hx base k 0 [] = Inr (map f [0..<length stepValues])"
    using steps_loop_all[of 0 hx base k f "[]"] mk2 by simp
  have k: "k < 10"
    using closest_loop_start[OF lightness_of_hex[OF assms(1)]]
    by (simp add: closest_first_def k_def base_def length_tables)
  then have lk: "lookup stepValues (int k) = Some (stepValues ! k)"
    by (simp add: lookup_nat length_tables)
  have l0: "lookup lightnessSteps 0 = Some (lightnessSteps ! 0)"
    using lookup_nat[of 0 lightnessSteps] by (simp add: length_tables)
  define p where "p = \<lparr>name = fullName cls, paletteTokenName = tokenName cls,
      chosenStep = stepValues ! k, steps = map f [0..<length stepValues], classification = cls\<rparr>"
  have g: "generateColorPalette hx = Inr p"
    unfolding generateColorPalette_def p_def
    using cls h l0 lk loop by (simp add: Let_def k_def)
  have "\<forall>i<10. steps p ! i = f i"
    by (simp add: p_def length_tables)
  with mk have st: "\<forall>i<10. \<exists>rgbi.
                 hexToRgb (step_hex hx base k i (lightnessSteps ! i)) = Inr rgbi
                 \<and> steps p ! i =
                     \<lparr>step = stepValues ! i,
                      hex = step_hex hx base k i (lightnessSteps ! i),
                      contrastWhite = contrast (luminance rgbi) (luminance white),
                      contrastDark = contrast (luminance rgbi) (luminance near_black),
                      wcagWhite = compliance (contrast (luminance rgbi) (luminance white)),
                      wcagDark = compliance (contrast (luminance rgbi) (luminance near_black)),
                      isChosenColor = (i = k)\<rparr>"
    by metis
  have "classifyHexColor hx = Inr (classification p)" "hsl (classification p) = base"
    "chosenStep p = stepValues ! k" "length (steps p) = 10"
    using cls h by (simp_all add: p_def length_tables)
  with g st show ?thesis by blast
qed

lemma generateColorPalette_fails:
  "generateColorPalette hx = Inl e \<longleftrightarrow> hexToRgb hx = Inl e"
proof (cases "hexToRgb hx")
  case (Inl e')
  then have "classifyHexColor hx = Inl e'" by (simp add: classifyHexColor_fails)
  with Inl show ?thesis by (simp add: generateColorPalette_def)
next
  case (Inr rgb)
  from palette_structure[OF this] Inr show ?thesis by auto
qed

lemma palette_steps:
  assumes "generateColorPalette hx = Inr p"
  obtains rgb k where "hexToRgb hx = Inr rgb"
    and "hsl (classification p) = rgbToHsl (rgb_r rgb) (rgb_g rgb) (rgb_b rgb)"
    and "closest_first lightnessSteps (hsl_l (hsl (classification p))) k"
    and "chosenStep p = stepValues ! k"
    and "length (steps p) = 10"
    and "\<And>i. i < 10 \<Longrightarrow> step (steps p ! i) = stepValues ! i"
    and "\<And>i. i < 10 \<Longrightarrow>
           hex (steps p ! i) = step_hex hx (hsl (classification p)) k i (lightnessSteps ! i)"
    and "\<And>i. i < 10 \<Longrightarrow> isChosenColor (steps p ! i) = (i = k)"
    and "\<And>i. i < 10 \<Longrightarrow> \<exists>rgbi. hexToRgb (hex (steps p ! i)) = Inr rgbi
           \<and> contrastWhite (steps p ! i) = contrast (luminance rgbi) (luminance white)
           \<and> contrastDark (steps p ! i) = contrast (luminance rgbi) (luminance near_black)"
proof -
  obtain rgb where rgb: "hexToRgb hx = Inr rgb"
    using assms generateColorPalette_fails[of hx] by (cases "hexToRgb hx") auto
  define base where "base = rgbToHsl (rgb_r rgb) (rgb_g rgb) (rgb_b rgb)"
  define k where "k = closest_loop (hsl_l base) 1 0 \<bar>fl (hsl_l base - lightnessSteps ! 0)\<bar>"
  from palette_structure[OF rgb] assms have
    h: "hsl (classification p) = base" and c: "chosenStep p = stepValues ! k"
    and len: "length (steps p) = 10"
    and st: "\<forall>i<10. \<exists>rgbi.
                 hexToRgb (step_hex hx base k i (lightnessSteps ! i)) = Inr rgbi
                 \<and> steps p ! i =
                     \<lparr>step = stepValues ! i,
                      hex = step_hex hx base k i (lightnessSteps ! i),
                      contrastWhite = contrast (luminance rgbi) (luminance white),
                      contrastDark = contrast (luminance rgbi) (luminance near_black),
                      wcagWhite = compliance (contrast (luminance rgbi) (luminance white)),
                      wcagDark = compliance (contrast (luminance rgbi) (luminance near_black)),
                      isChosenColor = (i = k)\<rparr>"
    unfolding base_def k_def by auto
  have cf: "closest_first lightnessSteps (hsl_l (hsl (classification p))) k"
    unfolding h k_def base_def by (rule closest_loop_start[OF lightness_of_hex[OF rgb]])
  have 1: "step (steps p ! i) = stepValues ! i" if "i < 10" for i
    using st that by fastforce
  have 2: "hex (steps p ! i) = step_hex hx (hsl (classification p)) k i (lightnessSteps ! i)"
    if "i < 10" for i using st that h by fastforce
  have 3: "isChosenColor (steps p ! i) = (i = k)" if "i < 10" for i
    using st that by fastforce
  have 4: "\<exists>rgbi. hexToRgb (hex (steps p ! i)) = Inr rgbi
           \<and> contrastWhite (steps p ! i) = contrast (luminance rgbi) (luminance white)
           \<and> contrastDark (steps p ! i) = contrast (luminance rgbi) (luminance near_black)"
    if "i < 10" for i
  proof -
    from st that obtain rgbi where
      "hexToRgb (step_hex hx base k i (lightnessSteps ! i)) = Inr rgbi"
      "steps p ! i =
                     \<lparr>step = stepValues ! i,
                      hex = step_hex hx base k i (lightnessSteps ! i),
                      contrastWhite = contrast (luminance rgbi) (luminance white),
                      contrastDark = contrast (luminance rgbi) (luminance near_black),
                      wcagWhite = compliance (contrast (luminance rgbi) (luminance white)),
                      wcagDark = compliance (contrast (luminance rgbi) (luminance near_black)),
                      isChosenColor = (i = k)\<rparr>" by blast
    then show ?thesis by (intro exI[of _ rgbi]) simp
  qed
  from rgb h[unfolded base_def] cf c len 1 2 3 4 show thesis by (rule that)
qed

lemma generateColorPalette_succeeds:
  assumes "matches_hex_pattern hx"
  shows "\<exists>p. generateColorPalette hx = Inr p"
proof -
  from assms obtain rgb where "hexToRgb hx = Inr rgb"
    using hexToRgb_succeeds_iff by blast
  from palette_structure[OF this] show ?thesis by blast
qed

text \<open>
  C1, amended: for every accepted hex string, exactly one of the 10 steps has
  \<open>isChosenColor\<close> set, and the hex of that step is the input string in upper case,
  as it was given: a 3-digit shorthand is not expanded and a missing \<open>#\<close> is not added.
\<close>

theorem palette_chosen_step:
  assumes "matches_hex_pattern hx"
  shows "\<exists>p. generateColorPalette hx = Inr p \<and> length (steps p) = 10
           \<and> (\<exists>!i. i < length (steps p) \<and> isChosenColor (steps p ! i))
           \<and> (\<forall>i<length (steps p). isChosenColor (steps p ! i) \<longrightarrow>
                  hex (steps p ! i) = toUpperCase hx)"
proof -
  from generateColorPalette_succeeds[OF assms] obtain p where p: "generateColorPalette hx = Inr p"
    by blast
  show ?thesis
  proof (rule palette_steps[OF p])
  fix k
  assume cf: "closest_first lightnessSteps (hsl_l (hsl (classification p))) k"
    and len: "length (steps p) = 10"
    and hx: "\<And>i. i < 10 \<Longrightarrow>
           hex (steps p ! i) = step_hex hx (hsl (classification p)) k i (lightnessSteps ! i)"
    and ch: "\<And>i. i < 10 \<Longrightarrow> isChosenColor (steps p ! i) = (i = k)"
  have k: "k < 10" using cf by (simp add: closest_first_def length_tables)
  have u: "\<exists>!i. i < length (steps p) \<and> isChosenColor (steps p ! i)"
    unfolding len using ch k by (intro ex1I[of _ k]) auto
  have "hex (steps p ! i) = toUpperCase hx" if "i < 10" "isChosenColor (steps p ! i)" for i
    using hx[OF that(1)] ch[OF that(1)] that(2) by (simp add: step_hex_def)
  then have "\<forall>i<length (steps p). isChosenColor (steps p ! i) \<longrightarrow>
                  hex (steps p ! i) = toUpperCase hx"
    unfolding len by (intro allI impI)
  with p len u show ?thesis
    by (intro exI[of _ p] conjI)
  qed
qed

text \<open>
  C3: for every valid hex input, \<open>generateColorPalette\<close> returns 10 steps with the labels
  50, 100, 200, ..., 900 in this order, and \<open>chosenStep\<close> is the label at the index whose
  target lightness is closest to the HSL lightness of the input, the lowest such index
  on a tie.
\<close>

theorem palette_shape_chosenStep:
  assumes "matches_hex_pattern hx"
  shows "\<exists>p rgb. generateColorPalette hx = Inr p \<and> hexToRgb hx = Inr rgb
           \<and> length (steps p) = 10
           \<and> map step (steps p) = [50, 100, 200, 300, 400, 500, 600, 700, 800, 900]
           \<and> (\<exists>k. closest_first [95, 90, 80, 65, 50, 40, 30, 20, 12, 8]
                      (hsl_l (rgbToHsl (rgb_r rgb) (rgb_g rgb) (rgb_b rgb))) k
                  \<and> chosenStep p = [50, 100, 200, 300, 400, 500, 600, 700, 800, 900] ! k)"
proof -
  from generateColorPalette_succeeds[OF assms] obtain p where p: "generateColorPalette hx = Inr p"
    by blast
  show ?thesis
  proof (rule palette_steps[OF p])
  fix rgb k
  assume rgb: "hexToRgb hx = Inr rgb"
    and h: "hsl (classification p) = rgbToHsl (rgb_r rgb) (rgb_g rgb) (rgb_b rgb)"
    and cf: "closest_first lightnessSteps (hsl_l (hsl (classification p))) k"
    and c: "chosenStep p = stepValues ! k"
    and len: "length (steps p) = 10"
    and st: "\<And>i. i < 10 \<Longrightarrow> step (steps p ! i) = stepValues ! i"
  have "map step (steps p) = stepValues"
    using len st by (intro nth_equalityI) (simp_all add: length_tables)
  then have m: "map step (steps p) = [50, 100, 200, 300, 400, 500, 600, 700, 800, 900]"
    by (simp add: stepValues_def)
  from cf h have "closest_first [95, 90, 80, 65, 50, 40, 30, 20, 12, 8]
                      (hsl_l (rgbToHsl (rgb_r rgb) (rgb_g rgb) (rgb_b rgb))) k"
    by (simp add: lightnessSteps_def)
  moreover from c have "chosenStep p = [50, 100, 200, 300, 400, 500, 600, 700, 800, 900] ! k"
    by (simp add: stepValues_def)
  ultimately have "\<exists>k. closest_first [95, 90, 80, 65, 50, 40, 30, 20, 12, 8]
                      (hsl_l (rgbToHsl (rgb_r rgb) (rgb_g rgb) (rgb_b rgb))) k
                  \<and> chosenStep p = [50, 100, 200, 300, 400, 500, 600, 700, 800, 900] ! k"
    by (intro exI[of _ k] conjI)
  with p rgb len m show ?thesis
    by (intro exI[of _ p] exI[of _ rgb] conjI)
  qed
qed

text \<open>
  C6: for every valid hex input, the step at the index whose target lightness is closest
  to the lightness of the input is the only one flagged as the chosen colour, and each of
  the nine other steps is synthesized: its hex is \<open>hslToHex\<close> of the hue of the input,
  of the saturation of the input multiplied by 0.3 for an index in \<open>{0, 1}\<close>, multiplied
  by 1.2 and capped at 100 for an index in \<open>{8, 9}\<close>, unchanged otherwise, and of the
  target lightness of the index.
\<close>

theorem palette_synthesized_steps:
  assumes "matches_hex_pattern hx"
  shows "\<exists>p rgb k. generateColorPalette hx = Inr p \<and> hexToRgb hx = Inr rgb
           \<and> length (steps p) = 10
           \<and> closest_first [95, 90, 80, 65, 50, 40, 30, 20, 12, 8]
                 (hsl_l (rgbToHsl (rgb_r rgb) (rgb_g rgb) (rgb_b rgb))) k
           \<and> (\<forall>i<10. isChosenColor (steps p ! i) \<longleftrightarrow> i = k)
           \<and> (\<forall>i<10. i \<noteq> k \<longrightarrow>
                 hex (steps p ! i) =
                   hslToHex (hsl_h (rgbToHsl (rgb_r rgb) (rgb_g rgb) (rgb_b rgb)))
                     (adjusted_saturation i (hsl_s (rgbToHsl (rgb_r rgb) (rgb_g rgb) (rgb_b rgb))))
                     ([95, 90, 80, 65, 50, 40, 30, 20, 12, 8] ! i))"
proof -
  from generateColorPalette_succeeds[OF assms] obtain p where p: "generateColorPalette hx = Inr p"
    by blast
  show ?thesis
  proof (rule palette_steps[OF p])
  fix rgb k
  assume rgb: "hexToRgb hx = Inr rgb"
    and h: "hsl (classification p) = rgbToHsl (rgb_r rgb) (rgb_g rgb) (rgb_b rgb)"
    and cf: "closest_first lightnessSteps (hsl_l (hsl (classification p))) k"
    and len: "length (steps p) = 10"
    and hx: "\<And>i. i < 10 \<Longrightarrow>
           hex (steps p ! i) = step_hex hx (hsl (classification p)) k i (lightnessSteps ! i)"
    and ch: "\<And>i. i < 10 \<Longrightarrow> isChosenColor (steps p ! i) = (i = k)"
  let ?b = "rgbToHsl (rgb_r rgb) (rgb_g rgb) (rgb_b rgb)"
  from cf h have c: "closest_first [95, 90, 80, 65, 50, 40, 30, 20, 12, 8] (hsl_l ?b) k"
    by (simp add: lightnessSteps_def)
  have f: "\<forall>i<10. isChosenColor (steps p ! i) \<longleftrightarrow> i = k"
    using ch by simp
  have "hex (steps p ! i) = hslToHex (hsl_h ?b) (adjusted_saturation i (hsl_s ?b))
          ([95, 90, 80, 65, 50, 40, 30, 20, 12, 8] ! i)"
    if i: "i < 10" and ik: "i \<noteq> k" for i
  proof -
    have a: "(if i > 7 then min (fl ((if i < 2 then fl (hsl_s ?b * fl 0.3) else hsl_s ?b) * fl 1.2)) 100
              else (if i < 2 then fl (hsl_s ?b * fl 0.3) else hsl_s ?b))
             = adjusted_saturation i (hsl_s ?b)"
      using i by (auto simp: adjusted_saturation_def)
    show ?thesis
      using hx[OF i] ik a unfolding h
      by (simp add: step_hex_def Let_def lightnessSteps_def)
  qed
  then have s: "\<forall>i<10. i \<noteq> k \<longrightarrow>
                 hex (steps p ! i) =
                   hslToHex (hsl_h ?b) (adjusted_saturation i (hsl_s ?b))
                     ([95, 90, 80, 65, 50, 40, 30, 20, 12, 8] ! i)"
    by (intro allI impI)
  from p rgb len c f s show ?thesis
    by (intro exI[of _ p] exI[of _ rgb] exI[of _ k] conjI)
  qed
qed

text \<open>
  C10: for every accepted hex input, whatever its form, every step that is not the
  chosen one has a hex string made of \<open>#\<close> and exactly six upper-case hexadecimal digits.
\<close>

theorem palette_synthesized_format:
  assumes "matches_hex_pattern hx"
  shows "\<exists>p. generateColorPalette hx = Inr p
           \<and> (\<forall>st \<in> set (steps p). \<not> isChosenColor st \<longrightarrow> is_hex6_upper (hex st))"
proof -
  from generateColorPalette_succeeds[OF assms] obtain p where p: "generateColorPalette hx = Inr p"
    by blast
  show ?thesis
  proof (rule palette_steps[OF p])
  fix k
  assume len: "length (steps p) = 10"
    and hx: "\<And>i. i < 10 \<Longrightarrow>
           hex (steps p ! i) = step_hex hx (hsl (classification p)) k i (lightnessSteps ! i)"
    and ch: "\<And>i. i < 10 \<Longrightarrow> isChosenColor (steps p ! i) = (i = k)"
  have "is_hex6_upper (hex st)" if "st \<in> set (steps p)" "\<not> isChosenColor st" for st
  proof -
    from that(1) len obtain i where i: "i < 10" "st = steps p ! i"
      by (metis in_set_conv_nth)
    with ch[OF i(1)] that(2) have "i \<noteq> k" by simp
    with hx[OF i(1)] i(2) show ?thesis
      by (simp add: step_hex_def Let_def hslToHex_format)
  qed
  then have "\<forall>st \<in> set (steps p). \<not> isChosenColor st \<longrightarrow> is_hex6_upper (hex st)"
    by (intro ballI impI)
  with p show ?thesis
    by (intro exI[of _ p] conjI)
  qed
qed

text \<open>
  C7: \<open>classifyHexColor\<close> and \<open>generateColorPalette\<close> fail if and only if the input does
  not match the hex pattern; the failure is the error raised by \<open>hexToRgb\<close> on the input,
  passed on unchanged, and on every input that matches the pattern both return a result.
\<close>

theorem hex_format_only_error:
  "(\<forall>e. classifyHexColor hx = Inl e \<longleftrightarrow> \<not> matches_hex_pattern hx \<and> e = InvalidColorFormat hx)
   \<and> (\<forall>e. generateColorPalette hx = Inl e \<longleftrightarrow> \<not> matches_hex_pattern hx \<and> e = InvalidColorFormat hx)
   \<and> (\<forall>e. classifyHexColor hx = Inl e \<longleftrightarrow> hexToRgb hx = Inl e)
   \<and> (\<forall>e. generateColorPalette hx = Inl e \<longleftrightarrow> hexToRgb hx = Inl e)
   \<and> (matches_hex_pattern hx \<longleftrightarrow> (\<exists>c. classifyHexColor hx = Inr c))
   \<and> (matches_hex_pattern hx \<longleftrightarrow> (\<exists>p. generateColorPalette hx = Inr p))"
proof -
  have 1: "classifyHexColor hx = Inl e \<longleftrightarrow> hexToRgb hx = Inl e" for e
    by (rule classifyHexColor_fails)
  have 2: "generateColorPalette hx = Inl e \<longleftrightarrow> hexToRgb hx = Inl e" for e
    by (rule generateColorPalette_fails)
  have 3: "matches_hex_pattern hx \<longleftrightarrow> (\<exists>c. classifyHexColor hx = Inr c)"
    using 1 hexToRgb_fails_iff[of hx] by (cases "classifyHexColor hx") auto
  have 4: "matches_hex_pattern hx \<longleftrightarrow> (\<exists>p. generateColorPalette hx = Inr p)"
    using 2 hexToRgb_fails_iff[of hx] by (cases "generateColorPalette hx") auto
  from 1 2 3 4 hexToRgb_fails_iff[of hx] show ?thesis by simp
qed

lemma palette_at:
  assumes "hexToRgb hx = Inr rgb"
    and "rgbToHsl (rgb_r rgb) (rgb_g rgb) (rgb_b rgb) = base"
    and "closest_loop (hsl_l base) 1 0 \<bar>fl (hsl_l base - lightnessSteps ! 0)\<bar> = k"
    and "i < 10"
  shows "generateColorPalette hx = Inr (projr (generateColorPalette hx))"
    and "chosenStep (projr (generateColorPalette hx)) = stepValues ! k"
    and "step (steps (projr (generateColorPalette hx)) ! i) = stepValues ! i"
    and "hex (steps (projr (generateColorPalette hx)) ! i)
           = step_hex hx base k i (lightnessSteps ! i)"
    and "isChosenColor (steps (projr (generateColorPalette hx)) ! i) = (i = k)"
    and "hexToRgb (step_hex hx base k i (lightnessSteps ! i)) = Inr rgbi \<Longrightarrow>
           contrastWhite (steps (projr (generateColorPalette hx)) ! i)
             = contrast (luminance rgbi) (luminance white)"
    and "hexToRgb (step_hex hx base k i (lightnessSteps ! i)) = Inr rgbi \<Longrightarrow>
           contrastDark (steps (projr (generateColorPalette hx)) ! i)
             = contrast (luminance rgbi) (luminance near_black)"
proof -
  from palette_structure[OF assms(1)] obtain p where p: "generateColorPalette hx = Inr p"
    and c: "chosenStep p = stepValues ! k"
    and st: "\<forall>i<10. \<exists>rgbi.
                 hexToRgb (step_hex hx base k i (lightnessSteps ! i)) = Inr rgbi
                 \<and> steps p ! i =
                     \<lparr>step = stepValues ! i,
                      hex = step_hex hx base k i (lightnessSteps ! i),
                      contrastWhite = contrast (luminance rgbi) (luminance white),
                      contrastDark = contrast (luminance rgbi) (luminance near_black),
                      wcagWhite = compliance (contrast (luminance rgbi) (luminance white)),
                      wcagDark = compliance (contrast (luminance rgbi) (luminance near_black)),
                      isChosenColor = (i = k)\<rparr>"
    unfolding assms(2) assms(3) by blast
  have pp: "projr (generateColorPalette hx) = p" using p by simp
  from st assms(4) obtain r where
    r: "hexToRgb (step_hex hx base k i (lightnessSteps ! i)) = Inr r"
    and s: "steps p ! i =
                     \<lparr>step = stepValues ! i,
                      hex = step_hex hx base k i (lightnessSteps ! i),
                      contrastWhite = contrast (luminance r) (luminance white),
                      contrastDark = contrast (luminance r) (luminance near_black),
                      wcagWhite = compliance (contrast (luminance r) (luminance white)),
                      wcagDark = compliance (contrast (luminance r) (luminance near_black)),
                      isChosenColor = (i = k)\<rparr>" by blast
  show "generateColorPalette hx = Inr (projr (generateColorPalette hx))" using p by simp
  show "chosenStep (projr (generateColorPalette hx)) = stepValues ! k" using c pp by simp
  show "step (steps (projr (generateColorPalette hx)) ! i) = stepValues ! i"
    unfolding pp s by simp
  show "hex (steps (projr (generateColorPalette hx)) ! i)
           = step_hex hx base k i (lightnessSteps ! i)"
    unfolding pp s by simp
  show "isChosenColor (steps (projr (generateColorPalette hx)) ! i) = (i = k)"
    unfolding pp s by simp
  show "contrastWhite (steps (projr (generateColorPalette hx)) ! i)
             = contrast (luminance rgbi) (luminance white)"
    if "hexToRgb (step_hex hx base k i (lightnessSteps ! i)) = Inr rgbi"
    using that r unfolding pp s by simp
  show "contrastDark (steps (projr (generateColorPalette hx)) ! i)
             = contrast (luminance rgbi) (luminance near_black)"
    if "hexToRgb (step_hex hx base k i (lightnessSteps ! i)) = Inr rgbi"
    using that r unfolding pp s by simp
qed

section \<open>Round trip through \<open>rgbToHex\<close> and \<open>hexToRgb\<close>\<close>

lemma toHex_length: "length (toHex n) = (if n = NaN then 3 else 2)"
proof (cases "n = NaN")
  case True
  then show ?thesis by (simp add: toHex_def)
next
  case False
  from toHex_hex2[OF False] obtain k where "toUpperCase (toHex n) = hex2 k" by blast
  then have "length (toUpperCase (toHex n)) = 2" by (simp add: hex2_def)
  with False show ?thesis by (simp add: toUpperCase_def)
qed

lemma rgbToHex_NaN_rejected:
  assumes "r = NaN \<or> g = NaN \<or> b = NaN"
  shows "hexToRgb (rgbToHex r g b) = Inl (InvalidColorFormat (rgbToHex r g b))"
proof -
  have h: "take 1 (rgbToHex r g b) = ''#''"
    by (simp add: rgbToHex_def toUpperCase_def toUpperCase_char_def)
  have "length (rgbToHex r g b) = 1 + length (toHex r) + length (toHex g) + length (toHex b)"
    by (simp add: rgbToHex_def toUpperCase_def)
  with assms have "8 \<le> length (rgbToHex r g b)"
    by (auto simp: toHex_length)
  then have "length (drop 1 (rgbToHex r g b)) \<noteq> 3" "length (drop 1 (rgbToHex r g b)) \<noteq> 6"
    by simp_all
  with h have "\<not> matches_hex_pattern (rgbToHex r g b)"
    unfolding matches_hex_pattern_def Let_def by simp
  then show ?thesis by (simp add: hexToRgb_fails_iff)
qed

text \<open>
  Every number other than NaN, finite or infinite, survives the round trip: \<open>hexToRgb\<close>
  accepts the string that \<open>rgbToHex\<close> returns, and each channel of the result is the
  input rounded to the nearest integer and clamped to the interval from 0 to 255. When one
  of the three numbers is NaN, \<open>hexToRgb\<close> rejects the string.
\<close>

lemma rgbToHex_hexToRgb_roundtrip:
  "(r \<noteq> NaN \<and> g \<noteq> NaN \<and> b \<noteq> NaN \<longrightarrow>
      (\<exists>cr cg cb. hexToRgb (rgbToHex r g b) = Inr \<lparr>rgb_r = cr, rgb_g = cg, rgb_b = cb\<rparr>
           \<and> Fin cr = round_clamp r \<and> Fin cg = round_clamp g \<and> Fin cb = round_clamp b))
   \<and> (r = NaN \<or> g = NaN \<or> b = NaN \<longrightarrow>
        hexToRgb (rgbToHex r g b) = Inl (InvalidColorFormat (rgbToHex r g b)))"
proof (intro conjI impI)
  assume "r \<noteq> NaN \<and> g \<noteq> NaN \<and> b \<noteq> NaN"
  then have n: "r \<noteq> NaN" "g \<noteq> NaN" "b \<noteq> NaN" by simp_all
  from rgbToHex_shape[OF n] obtain i j k where
    "i < 256" "j < 256" "k < 256" "rgbToHex r g b = CHR ''#'' # hex2 i @ hex2 j @ hex2 k"
    "round_clamp r = Fin (real i)" "round_clamp g = Fin (real j)" "round_clamp b = Fin (real k)"
    by blast
  then show "\<exists>cr cg cb. hexToRgb (rgbToHex r g b) = Inr \<lparr>rgb_r = cr, rgb_g = cg, rgb_b = cb\<rparr>
           \<and> Fin cr = round_clamp r \<and> Fin cg = round_clamp g \<and> Fin cb = round_clamp b"
    using hexToRgb_hex2[of i j k] by simp
next
  assume "r = NaN \<or> g = NaN \<or> b = NaN"
  then show "hexToRgb (rgbToHex r g b) = Inl (InvalidColorFormat (rgbToHex r g b))"
    by (rule rgbToHex_NaN_rejected)
qed

lemma rgbToHex_hexToRgb_roundtrip_example:
  "hexToRgb (rgbToHex (Fin 254.5) PosInfinity (Fin (- 3)))
       = Inr \<lparr>rgb_r = 255, rgb_g = 255, rgb_b = 0\<rparr>"
  using rgbToHex_hexToRgb_roundtrip[of "Fin 254.5" PosInfinity "Fin (- 3)"]
  by (auto simp: round_def)

text \<open>
  C9 fails on NaN, which is a number: \<open>Math.round\<close>, \<open>Math.min\<close> and \<open>Math.max\<close>
  pass NaN on, so the clamp of \<open>rgbToHex\<close> does not apply to it, \<open>toString(16)\<close>
  renders it as the three characters \<open>NaN\<close>, and \<open>rgbToHex\<close> returns the
  eight-character string \<open>#NAN0000\<close>, which \<open>hexToRgb\<close> rejects.
\<close>

theorem roundtrip_NaN_fails:
  "rgbToHex NaN (Fin 0) (Fin 0) = ''#NAN0000''
   \<and> \<not> is_hex6_upper (rgbToHex NaN (Fin 0) (Fin 0))
   \<and> hexToRgb (rgbToHex NaN (Fin 0) (Fin 0)) = Inl (InvalidColorFormat ''#NAN0000'')"
  by code_simp

section \<open>Evaluation at concrete colours\<close>

lemma eval_hue_15:
  "getHueName (15 - 1 / 2 ^ 49) 50 = ''Tangerine''"
  "normalized_hue (15 - 1 / 2 ^ 49) = 15"
  by code_simp+

lemma eval_002e45:
  "hexToRgb ''#002e45'' = Inr \<lparr>rgb_r = 0, rgb_g = 46, rgb_b = 69\<rparr>"
  "getHueName (200 - 1 / 2 ^ 45) 100 = ''Azure''"
  by code_simp+

lemma eval_002e45_hsl:
  "rgbToHsl 0 46 69 = \<lparr>hsl_h = 200 - 1 / 2 ^ 45, hsl_s = 100,
                         hsl_l = 7616381722758927 / 562949953421312\<rparr>"
  by code_simp


lemma eval_f53:
  "hexToRgb ''#f53'' = Inr \<lparr>rgb_r = 255, rgb_g = 85, rgb_b = 51\<rparr>"
  "rgbToHex (Fin 255) (Fin 85) (Fin 51) = ''#FF5533''"
  "toUpperCase ''#f53'' = ''#F53''"
  by code_simp+

lemma eval_f53_hsl:
  "rgbToHsl 255 85 51 = \<lparr>hsl_h = 10 - 1 / 2 ^ 49, hsl_s = 100, hsl_l = 60\<rparr>"
  by code_simp

lemma eval_f53_closest:
  "closest_loop 60 1 0 \<bar>fl (60 - lightnessSteps ! 0)\<bar> = 3"
  by code_simp

lemma eval_f53_step0:
  "step_hex ''#f53'' \<lparr>hsl_h = 10 - 1 / 2 ^ 49, hsl_s = 100, hsl_l = 60\<rparr> 3 0 (lightnessSteps ! 0) = ''#F6F0EE''"
  by code_simp

lemma eval_f53_step1:
  "step_hex ''#f53'' \<lparr>hsl_h = 10 - 1 / 2 ^ 49, hsl_s = 100, hsl_l = 60\<rparr> 3 1 (lightnessSteps ! 1) = ''#EDE0DE''"
  by code_simp

lemma eval_f53_step2:
  "step_hex ''#f53'' \<lparr>hsl_h = 10 - 1 / 2 ^ 49, hsl_s = 100, hsl_l = 60\<rparr> 3 2 (lightnessSteps ! 2) = ''#FFAA99''"
  by code_simp

lemma eval_f53_step3:
  "step_hex ''#f53'' \<lparr>hsl_h = 10 - 1 / 2 ^ 49, hsl_s = 100, hsl_l = 60\<rparr> 3 3 (lightnessSteps ! 3) = ''#F53''"
  by code_simp

lemma eval_f53_step4:
  "step_hex ''#f53'' \<lparr>hsl_h = 10 - 1 / 2 ^ 49, hsl_s = 100, hsl_l = 60\<rparr> 3 4 (lightnessSteps ! 4) = ''#FF2A00''"
  by code_simp

lemma eval_f53_step5:
  "step_hex ''#f53'' \<lparr>hsl_h = 10 - 1 / 2 ^ 49, hsl_s = 100, hsl_l = 60\<rparr> 3 5 (lightnessSteps ! 5) = ''#CC2200''"
  by code_simp

lemma eval_f53_step6:
  "step_hex ''#f53'' \<lparr>hsl_h = 10 - 1 / 2 ^ 49, hsl_s = 100, hsl_l = 60\<rparr> 3 6 (lightnessSteps ! 6) = ''#991900''"
  by code_simp

lemma eval_f53_step7:
  "step_hex ''#f53'' \<lparr>hsl_h = 10 - 1 / 2 ^ 49, hsl_s = 100, hsl_l = 60\<rparr> 3 7 (lightnessSteps ! 7) = ''#661100''"
  by code_simp

lemma eval_f53_step8:
  "step_hex ''#f53'' \<lparr>hsl_h = 10 - 1 / 2 ^ 49, hsl_s = 100, hsl_l = 60\<rparr> 3 8 (lightnessSteps ! 8) = ''#3D0A00''"
  by code_simp

lemma eval_f53_step9:
  "step_hex ''#f53'' \<lparr>hsl_h = 10 - 1 / 2 ^ 49, hsl_s = 100, hsl_l = 60\<rparr> 3 9 (lightnessSteps ! 9) = ''#290700''"
  by code_simp

lemma eval_330000:
  "hexToRgb ''#330000'' = Inr \<lparr>rgb_r = 51, rgb_g = 0, rgb_b = 0\<rparr>"
  "stepValues ! 8 = 800"
  by code_simp+

lemma eval_330000_hsl:
  "rgbToHsl 51 0 0 = \<lparr>hsl_h = 0, hsl_s = 100, hsl_l = 10\<rparr>"
  by code_simp

lemma eval_330000_closest:
  "closest_loop 10 1 0 \<bar>fl (10 - lightnessSteps ! 0)\<bar> = 8"
  by code_simp

lemma classify_3B82F6:
  "map_sum id (\<lambda>c. (fullName c, tokenName c)) (classifyHexColor ''#3B82F6'')
     = Inr (''Vivid Blue'', ''vividBlue'')"
  by code_simp

section \<open>Instances and counterexamples\<close>

text \<open>
  C5, as stated, fails: the hue \<open>15 - 2 ^ - 49\<close>, the largest double below 15, lies in
  the band \<open>[0, 15)\<close> of Scarlet, Red and Crimson, where the index formula gives Crimson;
  the classifier adds 360 first, the sum rounds to 375, and the result is Tangerine of
  the next band. In the same way the hue that \<open>rgbToHsl\<close> computes for the colour
  \<open>#002e45\<close> lies in the band \<open>[180, 200)\<close> of Cyan and Sky and is classified as Azure.
\<close>

theorem getHueName_leaves_band:
  "(0::real) \<le> 15 - 1 / 2 ^ 49 \<and> (15::real) - 1 / 2 ^ 49 < 15 \<and> \<not> (50::real) < 8
   \<and> (0, 15, [''Scarlet'', ''Red'', ''Crimson'']) \<in> set hue_bands
   \<and> getHueName (15 - 1 / 2 ^ 49) 50 = ''Tangerine''
   \<and> ''Tangerine'' \<notin> set [''Scarlet'', ''Red'', ''Crimson'']
   \<and> hexToRgb ''#002e45'' = Inr \<lparr>rgb_r = 0, rgb_g = 46, rgb_b = 69\<rparr>
   \<and> (180::real) \<le> hsl_h (rgbToHsl 0 46 69) \<and> hsl_h (rgbToHsl 0 46 69) < 200
   \<and> \<not> hsl_s (rgbToHsl 0 46 69) < 8
   \<and> (180, 200, [''Cyan'', ''Sky'']) \<in> set hue_bands
   \<and> getHueName (hsl_h (rgbToHsl 0 46 69)) (hsl_s (rgbToHsl 0 46 69)) = ''Azure''
   \<and> ''Azure'' \<notin> set [''Cyan'', ''Sky'']"
proof -
  have a: "(0::real) \<le> 15 - 1 / 2 ^ 49" "(15::real) - 1 / 2 ^ 49 < 15" "\<not> (50::real) < 8"
    by simp_all
  have b: "(0, 15, [''Scarlet'', ''Red'', ''Crimson'']) \<in> set hue_bands"
    "(180, 200, [''Cyan'', ''Sky'']) \<in> set hue_bands"
    by (simp_all add: hue_bands_def)
  have c: "''Tangerine'' \<notin> set [''Scarlet'', ''Red'', ''Crimson'']"
    "''Azure'' \<notin> set [''Cyan'', ''Sky'']" by simp_all
  have h: "hsl_h (rgbToHsl 0 46 69) = 200 - 1 / 2 ^ 45" "hsl_s (rgbToHsl 0 46 69) = 100"
    unfolding eval_002e45_hsl HSL.select_convs by (rule refl)+
  have d: "(180::real) \<le> hsl_h (rgbToHsl 0 46 69)" "hsl_h (rgbToHsl 0 46 69) < 200"
    "\<not> hsl_s (rgbToHsl 0 46 69) < 8"
    unfolding h by simp_all
  have e: "getHueName (hsl_h (rgbToHsl 0 46 69)) (hsl_s (rgbToHsl 0 46 69)) = ''Azure''"
    unfolding h by (rule eval_002e45(2))
  from a b(1) eval_hue_15(1) c(1) eval_002e45(1) d b(2) e c(2)
  show ?thesis by (intro conjI)
qed

theorem getHueName_classifies_witness:
  "(0::real) \<le> 15 - 1 / 2 ^ 49 \<and> (15::real) - 1 / 2 ^ 49 < 360
   \<and> (0::real) \<le> 50 \<and> (50::real) \<le> 100 \<and> \<not> (50::real) < 8
   \<and> normalized_hue (15 - 1 / 2 ^ 49) = 15
   \<and> (\<exists>a b ns. (a, b, ns) \<in> set hue_bands \<and> a \<le> (15::real) \<and> (15::real) < b
               \<and> 0 \<le> band_index 15 a b (length ns)
               \<and> getHueName (15 - 1 / 2 ^ 49) 50 = ns ! nat (band_index 15 a b (length ns)))
   \<and> getHueName (15 - 1 / 2 ^ 49) 50 \<in> set hue_vocabulary"
proof -
  have a: "(0::real) \<le> 15 - 1 / 2 ^ 49" "(15::real) - 1 / 2 ^ 49 < 360"
    "(0::real) \<le> 50" "(50::real) \<le> 100" by simp_all
  have n: "\<not> (50::real) < 8" by simp
  note t = getHueName_classifies[OF a, unfolded eval_hue_15(2)]
  from t n have e: "\<exists>a b ns. (a, b, ns) \<in> set hue_bands \<and> a \<le> (15::real) \<and> (15::real) < b
               \<and> 0 \<le> band_index 15 a b (length ns)
               \<and> getHueName (15 - 1 / 2 ^ 49) 50 = ns ! nat (band_index 15 a b (length ns))"
    by blast
  from t have v: "getHueName (15 - 1 / 2 ^ 49) 50 \<in> set hue_vocabulary" by blast
  from a n eval_hue_15(2) e v show ?thesis by (intro conjI)
qed


text \<open>
  C1, as stated, fails on the shorthand input \<open>#f53\<close>: the chosen step is at index 3 and
  its hex is \<open>#F53\<close>, while the colour normalized to six upper-case digits is \<open>#FF5533\<close>.
\<close>

theorem chosen_step_not_normalized:
  "generateColorPalette ''#f53'' = Inr (projr (generateColorPalette ''#f53''))
   \<and> isChosenColor (steps (projr (generateColorPalette ''#f53'')) ! 3)
   \<and> hex (steps (projr (generateColorPalette ''#f53'')) ! 3) = ''#F53''
   \<and> hexToRgb ''#f53'' = Inr \<lparr>rgb_r = 255, rgb_g = 85, rgb_b = 51\<rparr>
   \<and> rgbToHex (Fin 255) (Fin 85) (Fin 51) = ''#FF5533''"
proof -
  let ?base = "\<lparr>hsl_h = 10 - 1 / 2 ^ 49, hsl_s = 100, hsl_l = 60\<rparr>"
  have a: "rgbToHsl (rgb_r \<lparr>rgb_r = 255, rgb_g = 85, rgb_b = 51\<rparr>)
             (rgb_g \<lparr>rgb_r = 255, rgb_g = 85, rgb_b = 51\<rparr>)
             (rgb_b \<lparr>rgb_r = 255, rgb_g = 85, rgb_b = 51\<rparr>) = ?base"
    unfolding RGB.select_convs by (rule eval_f53_hsl)
  have b: "closest_loop (hsl_l ?base) 1 0 \<bar>fl (hsl_l ?base - lightnessSteps ! 0)\<bar> = 3"
    unfolding HSL.select_convs by (rule eval_f53_closest)
  have c: "(3::nat) < 10" by simp
  note p = palette_at[OF eval_f53(1) a b c]
  from p(1) p(4) p(5) eval_f53(1,2) eval_f53_step3 show ?thesis by simp
qed

theorem palette_chosen_step_witness:
  "matches_hex_pattern ''#f53''
   \<and> (\<exists>p. generateColorPalette ''#f53'' = Inr p \<and> length (steps p) = 10
           \<and> (\<exists>!i. i < length (steps p) \<and> isChosenColor (steps p ! i))
           \<and> (\<forall>i<length (steps p). isChosenColor (steps p ! i) \<longrightarrow>
                  hex (steps p ! i) = ''#F53''))"
proof -
  have m: "matches_hex_pattern ''#f53''" by code_simp
  from m palette_chosen_step[OF m, unfolded eval_f53(3)] show ?thesis by (rule conjI)
qed

theorem palette_shape_chosenStep_witness:
  "matches_hex_pattern ''#330000''
   \<and> (\<exists>p rgb. generateColorPalette ''#330000'' = Inr p \<and> hexToRgb ''#330000'' = Inr rgb
           \<and> length (steps p) = 10
           \<and> map step (steps p) = [50, 100, 200, 300, 400, 500, 600, 700, 800, 900]
           \<and> (\<exists>k. closest_first [95, 90, 80, 65, 50, 40, 30, 20, 12, 8]
                      (hsl_l (rgbToHsl (rgb_r rgb) (rgb_g rgb) (rgb_b rgb))) k
                  \<and> chosenStep p = [50, 100, 200, 300, 400, 500, 600, 700, 800, 900] ! k))
   \<and> hsl_l (rgbToHsl 51 0 0) = 10
   \<and> chosenStep (projr (generateColorPalette ''#330000'')) = 800"
proof -
  let ?base = "\<lparr>hsl_h = 0, hsl_s = 100, hsl_l = 10\<rparr>"
  have m: "matches_hex_pattern ''#330000''" by code_simp
  have a: "rgbToHsl (rgb_r \<lparr>rgb_r = 51, rgb_g = 0, rgb_b = 0\<rparr>)
             (rgb_g \<lparr>rgb_r = 51, rgb_g = 0, rgb_b = 0\<rparr>)
             (rgb_b \<lparr>rgb_r = 51, rgb_g = 0, rgb_b = 0\<rparr>) = ?base"
    unfolding RGB.select_convs by (rule eval_330000_hsl)
  have b: "closest_loop (hsl_l ?base) 1 0 \<bar>fl (hsl_l ?base - lightnessSteps ! 0)\<bar> = 8"
    unfolding HSL.select_convs by (rule eval_330000_closest)
  have c: "(0::nat) < 10" by simp
  have "chosenStep (projr (generateColorPalette ''#330000'')) = 800"
    using palette_at(2)[OF eval_330000(1) a b c] eval_330000(2) by simp
  moreover have "hsl_l (rgbToHsl 51 0 0) = 10" using eval_330000_hsl by simp
  ultimately show ?thesis using m palette_shape_chosenStep[OF m] by (intro conjI)
qed

theorem palette_synthesized_steps_witness:
  "matches_hex_pattern ''#f53''
   \<and> (\<exists>p rgb k. generateColorPalette ''#f53'' = Inr p \<and> hexToRgb ''#f53'' = Inr rgb
           \<and> length (steps p) = 10
           \<and> closest_first [95, 90, 80, 65, 50, 40, 30, 20, 12, 8]
                 (hsl_l (rgbToHsl (rgb_r rgb) (rgb_g rgb) (rgb_b rgb))) k
           \<and> (\<forall>i<10. isChosenColor (steps p ! i) \<longleftrightarrow> i = k)
           \<and> (\<forall>i<10. i \<noteq> k \<longrightarrow>
                 hex (steps p ! i) =
                   hslToHex (hsl_h (rgbToHsl (rgb_r rgb) (rgb_g rgb) (rgb_b rgb)))
                     (adjusted_saturation i (hsl_s (rgbToHsl (rgb_r rgb) (rgb_g rgb) (rgb_b rgb))))
                     ([95, 90, 80, 65, 50, 40, 30, 20, 12, 8] ! i)))
   \<and> map hex (steps (projr (generateColorPalette ''#f53'')))
       = [''#F6F0EE'', ''#EDE0DE'', ''#FFAA99'', ''#F53'', ''#FF2A00'', ''#CC2200'',
          ''#991900'', ''#661100'', ''#3D0A00'', ''#290700'']
   \<and> map isChosenColor (steps (projr (generateColorPalette ''#f53'')))
       = [False, False, False, True, False, False, False, False, False, False]"
proof -
  let ?base = "\<lparr>hsl_h = 10 - 1 / 2 ^ 49, hsl_s = 100, hsl_l = 60\<rparr>"
  let ?P = "projr (generateColorPalette ''#f53'')"
  have m: "matches_hex_pattern ''#f53''" by code_simp
  note t = palette_synthesized_steps[OF m]
  have a: "rgbToHsl (rgb_r \<lparr>rgb_r = 255, rgb_g = 85, rgb_b = 51\<rparr>)
             (rgb_g \<lparr>rgb_r = 255, rgb_g = 85, rgb_b = 51\<rparr>)
             (rgb_b \<lparr>rgb_r = 255, rgb_g = 85, rgb_b = 51\<rparr>) = ?base"
    unfolding RGB.select_convs by (rule eval_f53_hsl)
  have b: "closest_loop (hsl_l ?base) 1 0 \<bar>fl (hsl_l ?base - lightnessSteps ! 0)\<bar> = 3"
    unfolding HSL.select_convs by (rule eval_f53_closest)
  note at = palette_at(4,5)[OF eval_f53(1) a b]
  from t obtain p where p: "generateColorPalette ''#f53'' = Inr p" and len: "length (steps p) = 10"
    by blast
  have len: "length (steps ?P) = 10" using p len by simp
  have hx: "hex (steps ?P ! 0) = ''#F6F0EE''" "hex (steps ?P ! 1) = ''#EDE0DE''"
    "hex (steps ?P ! 2) = ''#FFAA99''" "hex (steps ?P ! 3) = ''#F53''"
    "hex (steps ?P ! 4) = ''#FF2A00''" "hex (steps ?P ! 5) = ''#CC2200''"
    "hex (steps ?P ! 6) = ''#991900''" "hex (steps ?P ! 7) = ''#661100''"
    "hex (steps ?P ! 8) = ''#3D0A00''" "hex (steps ?P ! 9) = ''#290700''"
    using at(1)[of 0] at(1)[of 1] at(1)[of 2] at(1)[of 3] at(1)[of 4] at(1)[of 5] at(1)[of 6]
      at(1)[of 7] at(1)[of 8] at(1)[of 9]
    by (simp_all only: eval_f53_step0 eval_f53_step1 eval_f53_step2 eval_f53_step3
        eval_f53_step4 eval_f53_step5 eval_f53_step6 eval_f53_step7 eval_f53_step8
        eval_f53_step9)
  have ch: "\<forall>i<10. isChosenColor (steps ?P ! i) = (i = 3)"
    using at(2) by simp
  have idx: "[0..<10] = [0, 1, 2, 3, 4, 5, 6, 7, 8, 9]" by (simp add: upt_rec)
  have mp: "map f (steps ?P) = map (\<lambda>i. f (steps ?P ! i)) [0..<10]" for f :: "ColorStep \<Rightarrow> 'a"
    using len by (intro nth_equalityI) simp_all
  have 1: "map hex (steps ?P)
       = [''#F6F0EE'', ''#EDE0DE'', ''#FFAA99'', ''#F53'', ''#FF2A00'', ''#CC2200'',
          ''#991900'', ''#661100'', ''#3D0A00'', ''#290700'']"
    unfolding mp idx using hx by simp
  have 2: "map isChosenColor (steps ?P)
       = [False, False, False, True, False, False, False, False, False, False]"
    unfolding mp idx using ch by simp
  from m t 1 2 show ?thesis by (intro conjI)
qed

theorem palette_synthesized_format_witness:
  "matches_hex_pattern ''abc''
   \<and> (\<exists>p. generateColorPalette ''abc'' = Inr p
           \<and> (\<forall>st \<in> set (steps p). \<not> isChosenColor st \<longrightarrow> is_hex6_upper (hex st)))"
proof -
  have m: "matches_hex_pattern ''abc''" by code_simp
  from m palette_synthesized_format[OF m] show ?thesis by (rule conjI)
qed

theorem hex_format_only_error_witness:
  "\<not> matches_hex_pattern ''notacolor''
   \<and> classifyHexColor ''notacolor'' = Inl (InvalidColorFormat ''notacolor'')
   \<and> generateColorPalette ''notacolor'' = Inl (InvalidColorFormat ''notacolor'')
   \<and> matches_hex_pattern ''#F53''
   \<and> (\<exists>c. classifyHexColor ''#F53'' = Inr c) \<and> (\<exists>p. generateColorPalette ''#F53'' = Inr p)"
proof -
  have n: "\<not> matches_hex_pattern ''notacolor''" by code_simp
  have m: "matches_hex_pattern ''#F53''" by code_simp
  from n hex_format_only_error[of "''notacolor''"]
  have "classifyHexColor ''notacolor'' = Inl (InvalidColorFormat ''notacolor'')"
    "generateColorPalette ''notacolor'' = Inl (InvalidColorFormat ''notacolor'')" by blast+
  moreover from m hex_format_only_error[of "''#F53''"]
  have "\<exists>c. classifyHexColor ''#F53'' = Inr c" "\<exists>p. generateColorPalette ''#F53'' = Inr p"
    by blast+
  ultimately show ?thesis using n m by (intro conjI)
qed

theorem classifyHexColor_names_witness:
  "matches_hex_pattern ''#3B82F6''
   \<and> (\<exists>c. classifyHexColor ''#3B82F6'' = Inr c
       \<and> fullName c = ''Vivid Blue'' \<and> tokenName c = ''vividBlue''
       \<and> tokenName c = lower_first (remove_spaces_hyphens (fullName c))
       \<and> tokenName c = lower_first (tone c) @ hueGroup c)"
proof -
  have m: "matches_hex_pattern ''#3B82F6''" by code_simp
  from classifyHexColor_names[OF m] obtain c where c: "classifyHexColor ''#3B82F6'' = Inr c"
    and t: "tokenName c = lower_first (remove_spaces_hyphens (fullName c))"
      "tokenName c = lower_first (tone c) @ hueGroup c" by blast
  from classify_3B82F6 c have n: "fullName c = ''Vivid Blue''" "tokenName c = ''vividBlue''"
    by simp_all
  from m c n t show ?thesis by (intro conjI exI[of _ c])
qed

end
